theory Spec2Isabelle
  imports Complex_Main "HOL-Library.Multiset" "HOL-Library.Product_Lexorder"
begin

section \<open>Numeric values\<close>

text \<open>
  The program computes with IEEE double precision numbers (Python \<open>float\<close>, numpy
  \<open>float64\<close>). A finite double is modelled by the real number it denotes; the three
  special values are kept apart, because the program reaches them through divisions by
  zero, logarithms of zero, overflow and underflow, where numpy warns and continues.
  The range of the doubles is modelled: a result whose absolute value is at least
  \<open>2^1024 - 2^970\<close> overflows to an infinity, and one whose absolute value is at most
  \<open>2^-1075\<close>, half the least positive double, underflows to zero, as rounding to
  nearest does. The rounding of the mantissa and the sign of zero are not modelled:
  inside the range a finite result is the exact real number.
\<close>

datatype float64 = Fin real | PInf | NInf | NaN

datatype error = ValueError | TypeError | ZeroDivisionError | IndexError

definition overflow_bound :: real where
  "overflow_bound = 2 ^ 1024 - 2 ^ 970"

definition underflow_bound :: real where
  "underflow_bound = 1 / 2 ^ 1075"

definition round_range :: "real \<Rightarrow> float64" where
  "round_range a =
     (if overflow_bound \<le> \<bar>a\<bar> then (if 0 < a then PInf else NInf)
      else if \<bar>a\<bar> \<le> underflow_bound then Fin 0
      else Fin a)"

fun fneg :: "float64 \<Rightarrow> float64" where
  "fneg (Fin a) = Fin (- a)"
| "fneg PInf = NInf"
| "fneg NInf = PInf"
| "fneg NaN = NaN"

fun fadd :: "float64 \<Rightarrow> float64 \<Rightarrow> float64" where
  "fadd NaN _ = NaN"
| "fadd _ NaN = NaN"
| "fadd (Fin a) (Fin b) = round_range (a + b)"
| "fadd (Fin a) PInf = PInf"
| "fadd (Fin a) NInf = NInf"
| "fadd PInf (Fin b) = PInf"
| "fadd NInf (Fin b) = NInf"
| "fadd PInf PInf = PInf"
| "fadd NInf NInf = NInf"
| "fadd PInf NInf = NaN"
| "fadd NInf PInf = NaN"

definition fsub :: "float64 \<Rightarrow> float64 \<Rightarrow> float64" where
  "fsub a b = fadd a (fneg b)"

text \<open>The sign of an infinite product or quotient: \<open>inf\<close> scaled by a finite factor.\<close>

definition scale_inf :: "real \<Rightarrow> float64" where
  "scale_inf a = (if a = 0 then NaN else if 0 < a then PInf else NInf)"

fun fmul :: "float64 \<Rightarrow> float64 \<Rightarrow> float64" where
  "fmul NaN _ = NaN"
| "fmul _ NaN = NaN"
| "fmul (Fin a) (Fin b) = round_range (a * b)"
| "fmul (Fin a) PInf = scale_inf a"
| "fmul (Fin a) NInf = scale_inf (- a)"
| "fmul PInf (Fin b) = scale_inf b"
| "fmul NInf (Fin b) = scale_inf (- b)"
| "fmul PInf PInf = PInf"
| "fmul NInf NInf = PInf"
| "fmul PInf NInf = NInf"
| "fmul NInf PInf = NInf"

text \<open>
  numpy's true division: a zero divisor gives \<open>nan\<close> for a zero dividend and an infinity
  of the dividend's sign otherwise (the divisors the program builds are \<open>+0.0\<close>).
\<close>

fun fdiv :: "float64 \<Rightarrow> float64 \<Rightarrow> float64" where
  "fdiv NaN _ = NaN"
| "fdiv _ NaN = NaN"
| "fdiv (Fin a) (Fin b) = (if b = 0 then scale_inf a else round_range (a / b))"
| "fdiv (Fin a) PInf = Fin 0"
| "fdiv (Fin a) NInf = Fin 0"
| "fdiv PInf (Fin b) = (if 0 \<le> b then PInf else NInf)"
| "fdiv NInf (Fin b) = (if 0 \<le> b then NInf else PInf)"
| "fdiv PInf PInf = NaN"
| "fdiv NInf NInf = NaN"
| "fdiv PInf NInf = NaN"
| "fdiv NInf PInf = NaN"

text \<open>Python's \<open>/\<close> on Python numbers raises on a zero divisor instead.\<close>

definition py_truediv :: "float64 \<Rightarrow> float64 \<Rightarrow> error + float64" where
  "py_truediv a b = (if b = Fin 0 then Inl ZeroDivisionError else Inr (fdiv a b))"

fun fexp :: "float64 \<Rightarrow> float64" where
  "fexp (Fin a) = round_range (exp a)"
| "fexp PInf = PInf"
| "fexp NInf = Fin 0"
| "fexp NaN = NaN"

fun flog :: "float64 \<Rightarrow> float64" where
  "flog (Fin a) = (if 0 < a then Fin (ln a) else if a = 0 then NInf else NaN)"
| "flog PInf = PInf"
| "flog NInf = NaN"
| "flog NaN = NaN"

fun fsqrt :: "float64 \<Rightarrow> float64" where
  "fsqrt (Fin a) = (if 0 \<le> a then Fin (sqrt a) else NaN)"
| "fsqrt PInf = PInf"
| "fsqrt NInf = NaN"
| "fsqrt NaN = NaN"

text \<open>The IEEE comparison \<open>a \<le> b\<close>: false as soon as one side is \<open>nan\<close>.\<close>

fun fle :: "float64 \<Rightarrow> float64 \<Rightarrow> bool" where
  "fle NaN _ = False"
| "fle _ NaN = False"
| "fle NInf _ = True"
| "fle _ PInf = True"
| "fle (Fin a) (Fin b) = (a \<le> b)"
| "fle (Fin a) NInf = False"
| "fle PInf (Fin b) = False"
| "fle PInf NInf = False"

definition fge :: "float64 \<Rightarrow> float64 \<Rightarrow> bool" where
  "fge a b = fle b a"

text \<open>
  The order numpy sorts and partitions by: the numeric order, with \<open>nan\<close> after
  everything else. The key maps a value to its place in that order.
\<close>

fun sort_key_of :: "float64 \<Rightarrow> nat \<times> real" where
  "sort_key_of NInf = (0, 0)"
| "sort_key_of (Fin a) = (1, a)"
| "sort_key_of PInf = (2, 0)"
| "sort_key_of NaN = (3, 0)"

definition sort_le :: "float64 \<Rightarrow> float64 \<Rightarrow> bool" where
  "sort_le a b = (sort_key_of a \<le> sort_key_of b)"

section \<open>Arrays\<close>

text \<open>
  A numpy array is a nested list in row-major order: a vector is a list, a matrix a list
  of rows, the weight grid a list of rows of cells, each cell a reference vector. Lists
  can be ragged and arrays cannot, so the theorems state the shape they need. An input
  vector is one-dimensional and a data set two-dimensional. numpy's 64-bit integers
  (indices, coordinates, squared grid distances) are natural numbers and integers
  here; the sizes in play are far from \<open>2^63\<close>.
\<close>

type_synonym vec = "float64 list"
type_synonym matrix = "float64 list list"
type_synonym grid = "float64 list list list"

definition has_shape2 :: "'a list list \<Rightarrow> nat \<times> nat \<Rightarrow> bool" where
  "has_shape2 D s = (length D = fst s \<and> list_all (\<lambda>row. length row = snd s) D)"

definition has_shape :: "grid \<Rightarrow> nat \<times> nat \<times> nat \<Rightarrow> bool" where
  "has_shape w s =
     (length w = fst s \<and>
      list_all (\<lambda>row. length row = fst (snd s) \<and>
                       list_all (\<lambda>cell. length cell = snd (snd s)) row) w)"

text \<open>The first error of a list of results, or all the values.\<close>

fun sequence :: "('e + 'a) list \<Rightarrow> 'e + 'a list" where
  "sequence [] = Inr []"
| "sequence (Inl e # rs) = Inl e"
| "sequence (Inr v # rs) = (case sequence rs of Inl e \<Rightarrow> Inl e | Inr vs \<Rightarrow> Inr (v # vs))"

text \<open>
  Broadcasting along one axis: equal lengths pair up, a length of one is repeated, and
  any other pair of lengths is numpy's \<open>ValueError\<close> (operands could not be broadcast
  together).
\<close>

definition bzip :: "('a \<Rightarrow> 'b \<Rightarrow> error + 'c) \<Rightarrow> 'a list \<Rightarrow> 'b list \<Rightarrow> error + 'c list" where
  "bzip f as bs =
     (if length as = length bs then sequence (map2 f as bs)
      else if length as = 1 then sequence (map (f (hd as)) bs)
      else if length bs = 1 then sequence (map (\<lambda>a. f a (hd bs)) as)
      else Inl ValueError)"

definition bc3 :: "(float64 \<Rightarrow> float64 \<Rightarrow> float64) \<Rightarrow> grid \<Rightarrow> grid \<Rightarrow> error + grid" where
  "bc3 f A B = bzip (bzip (bzip (\<lambda>a b. Inr (f a b)))) A B"

text \<open>
  \<open>a += b\<close> on arrays: the broadcast sum must have the shape of \<open>a\<close>, else numpy raises
  \<open>ValueError\<close> (non-broadcastable output operand) and writes nothing.
\<close>

definition iadd :: "grid \<Rightarrow> grid \<Rightarrow> error + grid" where
  "iadd a b =
     (case bc3 fadd a b of
        Inl e \<Rightarrow> Inl e
      | Inr r \<Rightarrow> if map (map length) r = map (map length) a then Inr r else Inl ValueError)"

definition fsum :: "float64 list \<Rightarrow> float64" where
  "fsum xs = foldr fadd xs (Fin 0)"

text \<open>\<open>np.linalg.norm(v, axis=-1)\<close>: the square root of the sum of the squares.\<close>

definition norm_last :: "vec \<Rightarrow> float64" where
  "norm_last v = fsqrt (fsum (map (\<lambda>d. fmul d d) v))"

text \<open>
  \<open>np.argmin\<close> on the flattened array, as numpy's loop runs it: the current minimum is
  replaced by an element that is not \<open>\<ge>\<close> it, and a \<open>nan\<close> ends the search.
\<close>

fun argmin_loop :: "float64 \<Rightarrow> nat \<Rightarrow> nat \<Rightarrow> float64 list \<Rightarrow> nat" where
  "argmin_loop mp mi i [] = mi"
| "argmin_loop mp mi i (y # ys) =
     (if \<not> fge y mp then (if y = NaN then i else argmin_loop y i (Suc i) ys)
      else argmin_loop mp mi (Suc i) ys)"

fun argmin :: "float64 list \<Rightarrow> error + nat" where
  "argmin [] = Inl ValueError"
| "argmin (y # ys) = Inr (if y = NaN then 0 else argmin_loop y 0 1 ys)"

text \<open>\<open>ndarray.min()\<close>: \<open>nan\<close> if there is one, else the least element.\<close>

definition fmin :: "float64 \<Rightarrow> float64 \<Rightarrow> float64" where
  "fmin a b = (if a = NaN \<or> b = NaN then NaN else if fle a b then a else b)"

fun amin :: "float64 list \<Rightarrow> error + float64" where
  "amin [] = Inl ValueError"
| "amin (y # ys) = Inr (foldl fmin y ys)"

text \<open>\<open>ndarray.mean()\<close>: the sum over the count; \<open>nan\<close> for an empty array.\<close>

definition mean :: "float64 list \<Rightarrow> float64" where
  "mean xs = fdiv (fsum xs) (Fin (real (length xs)))"

text \<open>\<open>np.unravel_index(i, (rows, cols))\<close>.\<close>

definition unravel_index :: "nat \<Rightarrow> nat \<times> nat \<Rightarrow> error + nat \<times> nat" where
  "unravel_index i s =
     (if i < fst s * snd s then Inr (i div snd s, i mod snd s) else Inl ValueError)"

section \<open>The map and its collaborators\<close>

text \<open>
  \<open>class SOM\<close>: \<open>store_attr()\<close> keeps the four constructor arguments, and \<open>weights\<close>
  starts as \<open>None\<close>. The distance function receives whatever \<open>self.weights\<close> holds.
  The grid size is a pair \<open>(rows, cols)\<close> of natural numbers and the input dimension
  a natural number: sizes below zero, which numpy refuses, are left out.
\<close>

record SOM =
  grid_sz :: "nat \<times> nat"
  input_dim :: nat
  init :: string
  dist_fn :: "vec \<Rightarrow> grid option \<Rightarrow> error + matrix"
  weights :: "grid option"

text \<open>
  The default \<open>dist_fn = lambda x, ws: np.linalg.norm(ws-x, axis=-1)\<close>. The vector \<open>x\<close>
  of shape \<open>(m,)\<close> broadcasts against the grid as an array of shape \<open>(1, 1, m)\<close>;
  \<open>None - x\<close> is a \<open>TypeError\<close>.
\<close>

definition dist_fn_default :: "vec \<Rightarrow> grid option \<Rightarrow> error + matrix" where
  "dist_fn_default x ws =
     (case ws of
        None \<Rightarrow> Inl TypeError
      | Some w \<Rightarrow>
          (case bc3 fsub w [[x]] of
             Inl e \<Rightarrow> Inl e
           | Inr diff \<Rightarrow> Inr (map (map norm_last) diff)))"

definition SOM_init :: "nat \<times> nat \<Rightarrow> nat \<Rightarrow> string \<Rightarrow> (vec \<Rightarrow> grid option \<Rightarrow> error + matrix) \<Rightarrow> SOM" where
  "SOM_init gs d i f = \<lparr>grid_sz = gs, input_dim = d, init = i, dist_fn = f, weights = None\<rparr>"

text \<open>
  What \<open>PCA(n_components=2).fit(X)\<close> leaves behind, as far as the program reads it.
\<close>

record pca_result =
  components :: matrix
  explained_variance :: vec

text \<open>
  The library routines whose code is not part of the program are parameters:
  \<open>np.random.randn(rows, cols, dim)\<close>, the fit of scikit-learn's PCA (which can raise),
  \<open>np.random.permutation(X)\<close> as drawn in a given epoch, and \<open>np.argpartition(a, kth)\<close>.
\<close>

record externals =
  randn :: "nat \<Rightarrow> nat \<Rightarrow> nat \<Rightarrow> grid"
  pca_fit :: "matrix \<Rightarrow> error + pca_result"
  permutation :: "nat \<Rightarrow> matrix \<Rightarrow> matrix"
  argpartition :: "float64 list \<Rightarrow> nat \<Rightarrow> error + nat list"

text \<open>What the libraries document about these routines.\<close>

definition randn_ok :: "externals \<Rightarrow> bool" where
  "randn_ok ext = (\<forall>r c d. has_shape (randn ext r c d) (r, c, d))"

definition pca_ok :: "externals \<Rightarrow> bool" where
  "pca_ok ext =
     (\<forall>X p. pca_fit ext X = Inr p \<longrightarrow>
        X \<noteq> [] \<and> length (explained_variance p) = 2 \<and> length (components p) = 2 \<and>
        list_all (\<lambda>c. length c = length (hd X)) (components p))"

definition permutation_ok :: "externals \<Rightarrow> bool" where
  "permutation_ok ext = (\<forall>e X. mset (permutation ext e X) = mset X)"

text \<open>
  \<open>np.argpartition(a, kth)\<close> raises \<open>ValueError\<close> for a \<open>kth\<close> out of bounds;
  otherwise it returns a permutation of the indices that puts the element of rank \<open>kth\<close>
  in its sorted place, nothing greater before it and nothing smaller after it. Which
  of several equal elements comes first is left open.
\<close>

definition argpartition_ok :: "externals \<Rightarrow> bool" where
  "argpartition_ok ext =
     (\<forall>a k.
        (length a \<le> k \<longrightarrow> argpartition ext a k = Inl ValueError) \<and>
        (k < length a \<longrightarrow>
           (\<exists>idx. argpartition ext a k = Inr idx \<and> mset idx = mset [0..<length a] \<and>
              (\<forall>j<k. sort_le (a ! (idx ! j)) (a ! (idx ! k))) \<and>
              (\<forall>j. k < j \<and> j < length a \<longrightarrow> sort_le (a ! (idx ! k)) (a ! (idx ! j))))))"

subsection \<open>Weight initialisation\<close>

text \<open>\<open>np.linspace(-1, 1, n)\<close>.\<close>

definition linspace :: "nat \<Rightarrow> vec" where
  "linspace n =
     map (\<lambda>i. Fin (if n = 1 then - 1 else - 1 + real i * (2 / real (n - 1)))) [0..<n]"

text \<open>
  \<open>_initialize_weights_pca\<close>. Both coordinate axes have \<open>grid_sz[0]\<close> points;
  \<open>np.meshgrid(alpha, beta)\<close> repeats \<open>alpha\<close> along the rows and \<open>beta\<close> along the
  columns. Reading \<open>explained_variance_[1]\<close> or \<open>components_[1]\<close> of a shorter array
  would be an \<open>IndexError\<close>.
\<close>

definition initialize_weights_pca :: "externals \<Rightarrow> SOM \<Rightarrow> matrix \<Rightarrow> error + grid" where
  "initialize_weights_pca ext som X =
     (case pca_fit ext X of
        Inl e \<Rightarrow> Inl e
      | Inr pca \<Rightarrow>
          if length (explained_variance pca) < 2 \<or> length (components pca) < 2
          then Inl IndexError
          else
            let n = fst (grid_sz som);
                alpha = map (\<lambda>a. fmul a (fsqrt (explained_variance pca ! 0))) (linspace n);
                beta = map (\<lambda>b. fmul b (fsqrt (explained_variance pca ! 1))) (linspace n);
                alpha_grid = replicate (length beta) alpha;
                beta_grid = map (\<lambda>b. replicate (length alpha) b) beta
            in (case bc3 fmul (map (map (\<lambda>a. [a])) alpha_grid) [[components pca ! 0]] of
                  Inl e \<Rightarrow> Inl e
                | Inr A \<Rightarrow>
                    (case bc3 fmul (map (map (\<lambda>b. [b])) beta_grid) [[components pca ! 1]] of
                       Inl e \<Rightarrow> Inl e
                     | Inr B \<Rightarrow> bc3 fadd A B)))"

text \<open>
  \<open>_initialize_weights(X, method)\<close>: a method that is neither \<open>'random'\<close> nor \<open>'pca'\<close>
  falls off the end of the function, which returns \<open>None\<close>.
\<close>

definition initialize_weights :: "externals \<Rightarrow> SOM \<Rightarrow> matrix option \<Rightarrow> string \<Rightarrow> error + grid option" where
  "initialize_weights ext som X method =
     (if method = ''random''
      then Inr (Some (randn ext (fst (grid_sz som)) (snd (grid_sz som)) (input_dim som)))
      else if method = ''pca''
      then (case X of
              None \<Rightarrow> Inl ValueError
            | Some X' \<Rightarrow>
                (case initialize_weights_pca ext som X' of
                   Inl e \<Rightarrow> Inl e
                 | Inr w \<Rightarrow> Inr (Some w)))
      else Inr None)"

subsection \<open>Best matching unit and the update\<close>

definition find_bmu :: "SOM \<Rightarrow> vec \<Rightarrow> error + nat \<times> nat" where
  "find_bmu som x =
     (case dist_fn som x (weights som) of
        Inl e \<Rightarrow> Inl e
      | Inr distances \<Rightarrow>
          (case argmin (concat distances) of
             Inl e \<Rightarrow> Inl e
           | Inr i \<Rightarrow> unravel_index i (grid_sz som)))"

text \<open>\<open>_grid_distances\<close>: an integer array over \<open>np.ogrid[0:rows, 0:cols]\<close>.\<close>

definition grid_distances :: "SOM \<Rightarrow> nat \<times> nat \<Rightarrow> int list list" where
  "grid_distances som bmu_pos =
     map (\<lambda>r. map (\<lambda>c. (int (fst bmu_pos) - int r)\<^sup>2 + (int (snd bmu_pos) - int c)\<^sup>2)
                   [0..<snd (grid_sz som)])
         [0..<fst (grid_sz som)]"

text \<open>
  \<open>_neighborhood_function\<close>: \<open>np.exp(-grid_dist/(2*sigma**2))\<close>, elementwise. The
  radius is the numpy scalar that \<open>fit\<close> passes, the value that the scheduler's decay
  returned: its square overflows to \<open>inf\<close> and underflows to zero without raising. The
  power of a Python \<open>float\<close> is the same number except where it overflows, where Python
  raises \<open>OverflowError\<close>; the theorems on the update leave that case out.
\<close>

definition neighborhood_function :: "SOM \<Rightarrow> int list list \<Rightarrow> float64 \<Rightarrow> matrix" where
  "neighborhood_function som grid_dist sigma =
     map (map (\<lambda>d. fexp (fdiv (Fin (real_of_int (- d))) (fmul (Fin 2) (fmul sigma sigma)))))
         grid_dist"

text \<open>
  \<open>_update_weights\<close>. Every error is raised before the in-place addition writes, so a
  failed call leaves the map as it was. The method returns the state of the map and
  the outcome of the call.
\<close>

definition update_weights :: "SOM \<Rightarrow> vec \<Rightarrow> float64 \<Rightarrow> float64 \<Rightarrow> SOM \<times> (error + unit)" where
  "update_weights som x learning_rate sigma =
     (case find_bmu som x of
        Inl e \<Rightarrow> (som, Inl e)
      | Inr bmu_pos \<Rightarrow>
          let grid_dist = grid_distances som bmu_pos;
              neighborhood = neighborhood_function som grid_dist sigma;
              scaled = map (map (\<lambda>h. [fmul learning_rate h])) neighborhood
          in (case weights som of
                None \<Rightarrow> (som, Inl TypeError)
              | Some w \<Rightarrow>
                  (case bc3 fsub [[x]] w of
                     Inl e \<Rightarrow> (som, Inl e)
                   | Inr diff \<Rightarrow>
                       (case bc3 fmul scaled diff of
                          Inl e \<Rightarrow> (som, Inl e)
                        | Inr delta \<Rightarrow>
                            (case iadd w delta of
                               Inl e \<Rightarrow> (som, Inl e)
                             | Inr w' \<Rightarrow> (som\<lparr>weights := Some w'\<rparr>, Inr ()))))))"

section \<open>The scheduler\<close>

text \<open>
  \<open>exp_sched\<close>. The quotient \<open>end_val/start_val\<close> is a division of Python floats: it
  raises for a zero divisor, and it underflows to zero and overflows to an infinity
  without raising. From \<open>np.log\<close> on the values are numpy scalars, whose division by
  zero does not raise. The two step counts are Python integers, taken into the doubles
  as they are: the conversion is exact below \<open>2^53\<close>.
\<close>

definition exp_sched :: "float64 \<Rightarrow> float64 \<Rightarrow> int \<Rightarrow> int \<Rightarrow> error + float64" where
  "exp_sched start_val end_val i n_steps =
     (case py_truediv end_val start_val of
        Inl e \<Rightarrow> Inl e
      | Inr q \<Rightarrow>
          let decay = fdiv (fneg (flog q)) (Fin (real_of_int n_steps))
          in Inr (fmul start_val (fexp (fmul (fneg decay) (Fin (real_of_int i))))))"

record Scheduler =
  start_val :: float64
  end_val :: float64
  step_size :: int
  n_samples :: int
  n_epochs :: int
  decay_fn :: "float64 \<Rightarrow> float64 \<Rightarrow> int \<Rightarrow> int \<Rightarrow> error + float64"
  current_step :: int
  current_value :: float64
  total_steps :: int

text \<open>
  \<open>Scheduler.__init__\<close>: the floor division of Python integers raises
  \<open>ZeroDivisionError\<close> for a zero \<open>step_size\<close>; nothing else is checked.
\<close>

definition Scheduler_init ::
  "float64 \<Rightarrow> float64 \<Rightarrow> int \<Rightarrow> int \<Rightarrow> int \<Rightarrow> (float64 \<Rightarrow> float64 \<Rightarrow> int \<Rightarrow> int \<Rightarrow> error + float64)
     \<Rightarrow> error + Scheduler" where
  "Scheduler_init sv ev ss ns ne f =
     (if ss = 0 then Inl ZeroDivisionError
      else Inr \<lparr>start_val = sv, end_val = ev, step_size = ss, n_samples = ns, n_epochs = ne,
                decay_fn = f, current_step = 0, current_value = sv,
                total_steps = (ns * ne) div ss\<rparr>)"

text \<open>
  \<open>Scheduler.step\<close>: returns the scheduler's state after the call and the outcome. A
  decay function that raises leaves the state as it was.
\<close>

definition step :: "Scheduler \<Rightarrow> int \<Rightarrow> Scheduler \<times> (error + float64)" where
  "step s total_samples =
     (if step_size s = 0 then (s, Inl ZeroDivisionError)
      else if total_samples mod step_size s = 0
      then (case decay_fn s (start_val s) (end_val s) (current_step s) (total_steps s) of
              Inl e \<Rightarrow> (s, Inl e)
            | Inr v \<Rightarrow> (s\<lparr>current_value := v, current_step := current_step s + 1\<rparr>, Inr v))
      else (s, Inr (current_value s)))"

section \<open>Metrics and queries\<close>

text \<open>
  The query methods only read the map. Each returns the state of the map after the call
  beside its outcome, so that what a call does to the map can be stated.
\<close>

text \<open>
  \<open>quantization_error\<close>: the mean of \<open>dist_fn(x, weights).min()\<close> over the samples; the
  list comprehension stops at the first sample that raises.
\<close>

definition quantization_error :: "SOM \<Rightarrow> matrix \<Rightarrow> SOM \<times> (error + float64)" where
  "quantization_error som X =
     (som,
      case sequence (map (\<lambda>x. case dist_fn som x (weights som) of
                                  Inl e \<Rightarrow> Inl e
                                | Inr distances \<Rightarrow> amin (concat distances)) X) of
        Inl e \<Rightarrow> Inl e
      | Inr ds \<Rightarrow> Inr (mean ds))"

text \<open>
  \<open>for x,y in indices\<close> unpacks one coordinate array into exactly two values (anything
  else is a \<open>ValueError\<close>) and tests \<open>np.abs(x-y) > 1\<close>.
\<close>

definition unpack_differs :: "nat list \<Rightarrow> error + bool" where
  "unpack_differs arr =
     (case arr of
        [x, y] \<Rightarrow> Inr (1 < \<bar>int x - int y\<bar>)
      | _ \<Rightarrow> Inl ValueError)"

text \<open>
  \<open>_check_bmu_adjacency\<close>, the helper inside \<open>topographic_error\<close>.
  \<open>np.unravel_index\<close> of the two flat indices gives the array of the two rows and the
  array of the two columns; \<open>any\<close> looks at the rows first and at the columns only if
  the rows are within one cell.
\<close>

definition check_bmu_adjacency :: "externals \<Rightarrow> SOM \<Rightarrow> vec \<Rightarrow> error + bool" where
  "check_bmu_adjacency ext som x =
     (case dist_fn som x (weights som) of
        Inl e \<Rightarrow> Inl e
      | Inr distances \<Rightarrow>
          (case argpartition ext (concat distances) 2 of
             Inl e \<Rightarrow> Inl e
           | Inr part \<Rightarrow>
               (case sequence (map (\<lambda>i. unravel_index i (grid_sz som)) (take 2 part)) of
                  Inl e \<Rightarrow> Inl e
                | Inr coords \<Rightarrow>
                    (case unpack_differs (map fst coords) of
                       Inl e \<Rightarrow> Inl e
                     | Inr True \<Rightarrow> Inr True
                     | Inr False \<Rightarrow> unpack_differs (map snd coords)))))"

text \<open>
  \<open>topographic_error\<close>: \<open>100 * n_errors / len(X)\<close>, a division of Python integers,
  which raises for an empty data set.
\<close>

definition topographic_error :: "externals \<Rightarrow> SOM \<Rightarrow> matrix \<Rightarrow> SOM \<times> (error + float64)" where
  "topographic_error ext som X =
     (som,
      case sequence (map (check_bmu_adjacency ext som) X) of
        Inl e \<Rightarrow> Inl e
      | Inr flags \<Rightarrow>
          let n_errors = length (filter (\<lambda>b. b) flags)
          in if length X = 0 then Inl ZeroDivisionError
             else Inr (Fin (real (100 * n_errors) / real (length X))))"

text \<open>
  \<open>transform\<close>: the loop writes the unit of sample \<open>i\<close> into row \<open>i\<close> of an array of
  zeros.
\<close>

fun transform_loop :: "SOM \<Rightarrow> (nat \<times> nat) list \<Rightarrow> nat \<Rightarrow> matrix \<Rightarrow> error + (nat \<times> nat) list" where
  "transform_loop som bmu_coords i [] = Inr bmu_coords"
| "transform_loop som bmu_coords i (x # xs) =
     (case find_bmu som x of
        Inl e \<Rightarrow> Inl e
      | Inr p \<Rightarrow> transform_loop som (bmu_coords[i := p]) (Suc i) xs)"

definition transform :: "SOM \<Rightarrow> matrix \<Rightarrow> SOM \<times> (error + (nat \<times> nat) list)" where
  "transform som X = (som, transform_loop som (replicate (length X) (0, 0)) 0 X)"

definition predict :: "SOM \<Rightarrow> matrix \<Rightarrow> SOM \<times> (error + (nat \<times> nat) list)" where
  "predict som X = transform som X"

section \<open>Training\<close>

text \<open>
  The inner loop of \<open>fit\<close> over the samples of one epoch, from sample \<open>i\<close> on. The state
  is the map and the two schedulers. An error ends the loop with the state reached so
  far, as the exception leaves the objects.
\<close>

type_synonym train_state = "SOM \<times> Scheduler \<times> Scheduler"

fun fit_samples :: "train_state \<Rightarrow> nat \<Rightarrow> nat \<Rightarrow> nat \<Rightarrow> matrix \<Rightarrow> train_state \<times> error option" where
  "fit_samples st epoch len i [] = (st, None)"
| "fit_samples (som, lr_s, sigma_s) epoch len i (x # xs) =
     (let total_samples = int (epoch * len + i)
      in case step lr_s total_samples of
           (lr_s', Inl e) \<Rightarrow> ((som, lr_s', sigma_s), Some e)
         | (lr_s', Inr lr) \<Rightarrow>
             (case step sigma_s total_samples of
                (sigma_s', Inl e) \<Rightarrow> ((som, lr_s', sigma_s'), Some e)
              | (sigma_s', Inr sigma) \<Rightarrow>
                  (case update_weights som x lr sigma of
                     (som', Inl e) \<Rightarrow> ((som', lr_s', sigma_s'), Some e)
                   | (som', Inr u) \<Rightarrow> fit_samples (som', lr_s', sigma_s') epoch len (Suc i) xs)))"

text \<open>
  The outer loop over the epochs that remain, with the two lists of errors collected so
  far. The metrics are computed on the data as given, not on the shuffled copy.
\<close>

fun fit_epochs ::
  "externals \<Rightarrow> matrix \<Rightarrow> bool \<Rightarrow> train_state \<Rightarrow> nat list \<Rightarrow> float64 list \<Rightarrow> float64 list
     \<Rightarrow> train_state \<times> (error + float64 list \<times> float64 list)" where
  "fit_epochs ext X shuffle st [] qe_errors te_errors = (st, Inr (qe_errors, te_errors))"
| "fit_epochs ext X shuffle st (epoch # epochs) qe_errors te_errors =
     (let X' = (if shuffle then permutation ext epoch X else X)
      in case fit_samples st epoch (length X) 0 X' of
           (st', Some e) \<Rightarrow> (st', Inl e)
         | ((som, lr_s, sigma_s), None) \<Rightarrow>
             (case quantization_error som X of
                (som1, Inl e) \<Rightarrow> ((som1, lr_s, sigma_s), Inl e)
              | (som1, Inr qe) \<Rightarrow>
                  (case topographic_error ext som1 X of
                     (som2, Inl e) \<Rightarrow> ((som2, lr_s, sigma_s), Inl e)
                   | (som2, Inr te) \<Rightarrow>
                       fit_epochs ext X shuffle (som2, lr_s, sigma_s) epochs
                         (qe_errors @ [qe]) (te_errors @ [te]))))"

text \<open>
  \<open>fit\<close>. The weights are initialised only if they are \<open>None\<close>, and whatever
  \<open>_initialize_weights\<close> returns is stored. The default schedulers are
  \<open>Scheduler(1.0, 0.01, 100, len(X), n_epochs)\<close> and
  \<open>Scheduler(max(self.grid_sz)/2, 1.0, 100, len(X), n_epochs)\<close>. The progress line of
  \<open>verbose\<close> is output only and is left out.
\<close>

definition fit ::
  "externals \<Rightarrow> SOM \<Rightarrow> matrix \<Rightarrow> nat \<Rightarrow> Scheduler option \<Rightarrow> Scheduler option \<Rightarrow> bool
     \<Rightarrow> SOM \<times> (error + grid option \<times> float64 list \<times> float64 list)" where
  "fit ext som X nepochs lr_scheduler sigma_scheduler shuffle =
     (case (if weights som = None
            then (case initialize_weights ext som (Some X) (init som) of
                    Inl e \<Rightarrow> Inl e
                  | Inr w \<Rightarrow> Inr (som\<lparr>weights := w\<rparr>))
            else Inr som) of
        Inl e \<Rightarrow> (som, Inl e)
      | Inr som1 \<Rightarrow>
          (case (case lr_scheduler of
                   None \<Rightarrow> Scheduler_init (Fin 1) (Fin (1 / 100)) 100 (int (length X))
                             (int nepochs) exp_sched
                 | Some s \<Rightarrow> Inr s) of
             Inl e \<Rightarrow> (som1, Inl e)
           | Inr lr_s \<Rightarrow>
               (case (case sigma_scheduler of
                        None \<Rightarrow> Scheduler_init
                                  (Fin (real (max (fst (grid_sz som1)) (snd (grid_sz som1))) / 2))
                                  (Fin 1) 100 (int (length X)) (int nepochs) exp_sched
                      | Some s \<Rightarrow> Inr s) of
                  Inl e \<Rightarrow> (som1, Inl e)
                | Inr sigma_s \<Rightarrow>
                    (case fit_epochs ext X shuffle (som1, lr_s, sigma_s) [0..<nepochs] [] [] of
                       ((som2, lr_s', sigma_s'), Inl e) \<Rightarrow> (som2, Inl e)
                     | ((som2, lr_s', sigma_s'), Inr (qe_errors, te_errors)) \<Rightarrow>
                         (som2, Inr (weights som2, qe_errors, te_errors))))))"

section \<open>Sample collaborators\<close>

text \<open>
  Concrete routines that meet the documented behaviour of the library routines; the
  examples below run the program with them. The draw of \<open>randn\<close> is a fixed array of
  finite values, the permutation reverses the data, and the partition sorts all the
  indices by the sorting order of the values. The PCA refuses data with fewer than two
  samples or two features, as scikit-learn does for two components, and answers with
  the first two coordinate axes and the variances 1 and 0 otherwise, which is the
  decomposition of data such as \<open>[[1, 0], [-1, 0], [0, 0]]\<close>.
\<close>

definition sample_randn :: "nat \<Rightarrow> nat \<Rightarrow> nat \<Rightarrow> grid" where
  "sample_randn r c d =
     map (\<lambda>i. map (\<lambda>j. map (\<lambda>k. Fin (real (i + j + k))) [0..<d]) [0..<c]) [0..<r]"

definition unit_vec :: "nat \<Rightarrow> nat \<Rightarrow> vec" where
  "unit_vec m i = map (\<lambda>k. Fin (if k = i then 1 else 0)) [0..<m]"

definition sample_pca :: "matrix \<Rightarrow> error + pca_result" where
  "sample_pca X =
     (if length X < 2 \<or> length (hd X) < 2 then Inl ValueError
      else Inr \<lparr>components = [unit_vec (length (hd X)) 0, unit_vec (length (hd X)) 1],
                explained_variance = [Fin 1, Fin 0]\<rparr>)"

definition sample_argpartition :: "float64 list \<Rightarrow> nat \<Rightarrow> error + nat list" where
  "sample_argpartition a k =
     (if k < length a then Inr (sort_key (\<lambda>i. sort_key_of (a ! i)) [0..<length a])
      else Inl ValueError)"

definition sample_ext :: externals where
  "sample_ext = \<lparr>randn = sample_randn, pca_fit = sample_pca, permutation = (\<lambda>e X. rev X),
                  argpartition = sample_argpartition\<rparr>"

section \<open>The claims' own notions\<close>

text \<open>
  The neighbourhood weight as the specification writes it, for the unit \<open>(br, bc)\<close> and
  the cell \<open>(r, c)\<close>: \<open>exp(-((br-r)^2 + (bc-c)^2) / (2*sigma^2))\<close>, in the program's
  arithmetic.
\<close>

definition neighborhood_weight :: "nat \<times> nat \<Rightarrow> nat \<Rightarrow> nat \<Rightarrow> float64 \<Rightarrow> float64" where
  "neighborhood_weight bmu r c sigma =
     fexp (fdiv (Fin (- real_of_int ((int (fst bmu) - int r)\<^sup>2 + (int (snd bmu) - int c)\<^sup>2)))
                (fmul (Fin 2) (fmul sigma sigma)))"

text \<open>
  The square of the radius, as the kernel computes it. For a finite \<open>sigma\<close> it
  overflows where the real square is beyond the doubles: there the numpy square is
  \<open>inf\<close> and the power of a Python \<open>float\<close> raises \<open>OverflowError\<close>. It vanishes
  where the real square is rounded to zero: for \<open>sigma = 0\<close> and for a \<open>sigma\<close> so
  small that its square underflows.
\<close>

definition square_overflows :: "float64 \<Rightarrow> bool" where
  "square_overflows sigma = (case sigma of Fin s \<Rightarrow> overflow_bound \<le> s * s | _ \<Rightarrow> False)"

definition square_vanishes :: "float64 \<Rightarrow> bool" where
  "square_vanishes sigma = (case sigma of Fin s \<Rightarrow> s * s \<le> underflow_bound | _ \<Rightarrow> False)"

text \<open>
  A real number is in the range of the finite doubles other than zero: rounding takes it
  neither to an infinity nor to zero.
\<close>

definition in_range :: "real \<Rightarrow> bool" where
  "in_range a = (underflow_bound < \<bar>a\<bar> \<and> \<bar>a\<bar> < overflow_bound)"

text \<open>
  Two cells \<open>i1\<close> and \<open>i2\<close> (flat indices) are the two closest of a flattened grid of
  distances if they are distinct and no other cell comes before either of them in the
  sorting order. With equal distances several pairs qualify.
\<close>

definition two_closest :: "float64 list \<Rightarrow> nat \<Rightarrow> nat \<Rightarrow> bool" where
  "two_closest d i1 i2 =
     (i1 < length d \<and> i2 < length d \<and> i1 \<noteq> i2 \<and>
      (\<forall>j<length d. j \<noteq> i1 \<and> j \<noteq> i2 \<longrightarrow> sort_le (d ! i1) (d ! j) \<and> sort_le (d ! i2) (d ! j)))"

text \<open>
  Two coordinates are not adjacent, in the sense of the topographic error, if their rows
  or their columns differ by more than one; \<open>cell_of\<close> is the coordinate of a flat index.
\<close>

definition non_adjacent :: "nat \<times> nat \<Rightarrow> nat \<times> nat \<Rightarrow> bool" where
  "non_adjacent p q = (1 < \<bar>int (fst p) - int (fst q)\<bar> \<or> 1 < \<bar>int (snd p) - int (snd q)\<bar>)"

definition cell_of :: "nat \<Rightarrow> nat \<Rightarrow> nat \<times> nat" where
  "cell_of cols i = (i div cols, i mod cols)"

text \<open>The map holds a weight grid, and the grid has the shape \<open>s\<close>.\<close>

definition weights_shape :: "SOM \<Rightarrow> nat \<times> nat \<times> nat \<Rightarrow> bool" where
  "weights_shape som s = (case weights som of None \<Rightarrow> False | Some w \<Rightarrow> has_shape w s)"

section \<open>Example maps\<close>

text \<open>
  A two by two map over one-dimensional data, with two cells at the same distance from
  the input \<open>[0]\<close>.
\<close>

definition example_som :: SOM where
  "example_som = \<lparr>grid_sz = (2, 2), input_dim = 1, init = ''random'', dist_fn = dist_fn_default,
                   weights = Some [[[Fin 1], [Fin 0]], [[Fin 0], [Fin 1]]]\<rparr>"

text \<open>
  A map with a single cell over three-dimensional data, a row of three cells of which the
  two outer ones are closest to \<open>[0]\<close>, and a row of two cells.
\<close>

definition single_cell_som :: SOM where
  "single_cell_som = \<lparr>grid_sz = (1, 1), input_dim = 3, init = ''random'',
                       dist_fn = dist_fn_default,
                       weights = Some [[[Fin 0, Fin 0, Fin 0]]]\<rparr>"

definition row_som :: SOM where
  "row_som = \<lparr>grid_sz = (1, 3), input_dim = 1, init = ''random'', dist_fn = dist_fn_default,
               weights = Some [[[Fin 0], [Fin 1], [Fin 0]]]\<rparr>"

definition pair_som :: SOM where
  "pair_som = \<lparr>grid_sz = (1, 2), input_dim = 1, init = ''random'', dist_fn = dist_fn_default,
                weights = Some [[[Fin 0], [Fin 1]]]\<rparr>"

text \<open>
  A map over two-dimensional data whose grid is not square, set up for PCA
  initialisation, and a map whose initialisation method is not one the program knows.
\<close>

definition oblong_som :: SOM where
  "oblong_som = SOM_init (2, 3) 2 ''pca'' dist_fn_default"

definition unknown_init_som :: SOM where
  "unknown_init_som = SOM_init (2, 2) 1 ''kmeans'' dist_fn_default"

section \<open>Auxiliary facts\<close>

subsection \<open>The range of the doubles\<close>

lemma underflow_bound_pos: "0 < underflow_bound"
  by (simp add: underflow_bound_def)

lemma underflow_bound_less_one: "underflow_bound < 1"
  by (simp add: underflow_bound_def)

lemma one_less_overflow_bound: "1 < overflow_bound"
  by (simp add: overflow_bound_def)

lemma round_range_zero: "round_range 0 = Fin 0"
  using underflow_bound_pos one_less_overflow_bound by (simp add: round_range_def)

lemma round_range_one: "round_range 1 = Fin 1"
  using underflow_bound_less_one one_less_overflow_bound by (simp add: round_range_def)

lemma round_range_exact:
  "underflow_bound < \<bar>a\<bar> \<Longrightarrow> \<bar>a\<bar> < overflow_bound \<Longrightarrow> round_range a = Fin a"
  by (simp add: round_range_def)

lemma round_range_finite:
  "\<bar>a\<bar> < overflow_bound \<Longrightarrow> round_range a = Fin a \<or> round_range a = Fin 0"
  by (simp add: round_range_def)

lemma round_range_nonpos:
  "a \<le> 0 \<Longrightarrow> round_range a = NInf \<or> (\<exists>b. round_range a = Fin b \<and> a \<le> b \<and> b \<le> 0)"
  using one_less_overflow_bound by (auto simp: round_range_def)

lemma round_range_moderate:
  assumes "1 / 2 ^ 64 \<le> \<bar>a\<bar>" and "\<bar>a\<bar> \<le> 2 ^ 64"
  shows "round_range a = Fin a"
proof -
  have "underflow_bound < 1 / 2 ^ 64" by (simp add: underflow_bound_def)
  moreover have "(2::real) ^ 64 < overflow_bound" by (simp add: overflow_bound_def)
  ultimately show ?thesis using assms by (intro round_range_exact) linarith+
qed

lemma round_range_exp:
  assumes "- 64 \<le> a" and "a \<le> 0"
  shows "round_range (exp a) = Fin (exp a)"
proof -
  have "exp (- a) \<le> exp 64" using assms by simp
  also have "exp (64::real) = exp 1 ^ 64" by (simp add: exp_of_nat_mult [symmetric] del: exp_of_nat_mult)
  also have "\<dots> \<le> 3 ^ 64" by (intro power_mono exp_le) simp
  also have "\<dots> \<le> (2::real) ^ 128" by simp
  finally have "1 / 2 ^ 128 \<le> 1 / exp (- a)"
    by (intro divide_left_mono) simp_all
  then have lo: "1 / 2 ^ 128 \<le> exp a" by (simp add: exp_minus field_simps)
  have hi: "exp a \<le> 1" using assms by simp
  have ab: "\<bar>exp a\<bar> = exp a" by simp
  have "underflow_bound < 1 / 2 ^ 128" by (simp add: underflow_bound_def)
  then have "underflow_bound < \<bar>exp a\<bar>" unfolding ab using lo by linarith
  moreover have "\<bar>exp a\<bar> < overflow_bound"
    unfolding ab using hi one_less_overflow_bound by linarith
  ultimately show ?thesis by (rule round_range_exact)
qed

subsection \<open>The order on numbers and \<open>argmin\<close>\<close>

lemma fle_refl: "a \<noteq> NaN \<Longrightarrow> fle a a"
  by (cases a) auto

lemma fle_total: "a \<noteq> NaN \<Longrightarrow> b \<noteq> NaN \<Longrightarrow> fle a b \<or> fle b a"
  by (cases a; cases b) auto

lemma fle_trans: "fle a b \<Longrightarrow> fle b c \<Longrightarrow> fle a c"
  by (cases a; cases b; cases c) auto

lemma fle_not_NaN: "fle a b \<Longrightarrow> a \<noteq> NaN \<and> b \<noteq> NaN"
  by (cases a; cases b) auto

lemma argmin_loop_spec:
  assumes "mp \<noteq> NaN" and "NaN \<notin> set ys"
  shows "(argmin_loop mp mi i ys = mi \<and> (\<forall>y\<in>set ys. fle mp y)) \<or>
         (\<exists>k<length ys. argmin_loop mp mi i ys = i + k \<and> \<not> fle mp (ys ! k) \<and>
             (\<forall>j<length ys. fle (ys ! k) (ys ! j)) \<and> (\<forall>j<k. \<not> fle (ys ! j) (ys ! k)))"
  using assms
proof (induction ys arbitrary: mp mi i)
  case Nil
  then show ?case by simp
next
  case (Cons y ys)
  have yn: "y \<noteq> NaN" and ysn: "NaN \<notin> set ys" using Cons.prems by auto
  show ?case
  proof (cases "fle mp y")
    case True
    from Cons.IH [OF Cons.prems(1) ysn, of mi "Suc i"]
    show ?thesis
    proof
      assume "argmin_loop mp mi (Suc i) ys = mi \<and> (\<forall>y\<in>set ys. fle mp y)"
      with True show ?thesis by (simp add: fge_def)
    next
      assume "\<exists>k<length ys. argmin_loop mp mi (Suc i) ys = Suc i + k \<and> \<not> fle mp (ys ! k) \<and>
             (\<forall>j<length ys. fle (ys ! k) (ys ! j)) \<and> (\<forall>j<k. \<not> fle (ys ! j) (ys ! k))"
      then obtain k where k: "k < length ys" "argmin_loop mp mi (Suc i) ys = Suc i + k"
        "\<not> fle mp (ys ! k)" "\<forall>j<length ys. fle (ys ! k) (ys ! j)" "\<forall>j<k. \<not> fle (ys ! j) (ys ! k)"
        by blast
      have kn: "ys ! k \<noteq> NaN" using k(1) ysn by (metis nth_mem)
      have a: "fle (ys ! k) mp" using fle_total [OF Cons.prems(1) kn] k(3) by blast
      have b: "fle (ys ! k) y" using a True by (rule fle_trans)
      have c: "\<not> fle y (ys ! k)" using True k(3) fle_trans by blast
      have "Suc k < length (y # ys)" using k(1) by simp
      moreover have "argmin_loop mp mi i (y # ys) = i + Suc k" using True k(2) by (simp add: fge_def)
      moreover have "\<not> fle mp ((y # ys) ! Suc k)" using k(3) by simp
      moreover have "\<forall>j<length (y # ys). fle ((y # ys) ! Suc k) ((y # ys) ! j)"
        using b k(4) by (auto simp: nth_Cons split: nat.splits)
      moreover have "\<forall>j<Suc k. \<not> fle ((y # ys) ! j) ((y # ys) ! Suc k)"
        using c k(5) by (auto simp: nth_Cons split: nat.splits)
      ultimately show ?thesis by blast
    qed
  next
    case False
    from Cons.IH [OF yn ysn, of i "Suc i"]
    show ?thesis
    proof
      assume h: "argmin_loop y i (Suc i) ys = i \<and> (\<forall>y'\<in>set ys. fle y y')"
      have "0 < length (y # ys)" by simp
      moreover have "argmin_loop mp mi i (y # ys) = i + 0" using False yn h by (simp add: fge_def)
      moreover have "\<not> fle mp ((y # ys) ! 0)" using False by simp
      moreover have "\<forall>j<length (y # ys). fle ((y # ys) ! 0) ((y # ys) ! j)"
        using h fle_refl [OF yn] by (auto simp: nth_Cons split: nat.splits)
      ultimately show ?thesis by blast
    next
      assume "\<exists>k<length ys. argmin_loop y i (Suc i) ys = Suc i + k \<and> \<not> fle y (ys ! k) \<and>
             (\<forall>j<length ys. fle (ys ! k) (ys ! j)) \<and> (\<forall>j<k. \<not> fle (ys ! j) (ys ! k))"
      then obtain k where k: "k < length ys" "argmin_loop y i (Suc i) ys = Suc i + k"
        "\<not> fle y (ys ! k)" "\<forall>j<length ys. fle (ys ! k) (ys ! j)" "\<forall>j<k. \<not> fle (ys ! j) (ys ! k)"
        by blast
      have kn: "ys ! k \<noteq> NaN" using k(1) ysn by (metis nth_mem)
      have a: "fle (ys ! k) y" using fle_total [OF yn kn] k(3) by blast
      have ymp: "fle y mp" using fle_total [OF Cons.prems(1) yn] False by blast
      have c: "\<not> fle mp (ys ! k)" using ymp k(3) fle_trans by blast
      have "Suc k < length (y # ys)" using k(1) by simp
      moreover have "argmin_loop mp mi i (y # ys) = i + Suc k" using False yn k(2) by (simp add: fge_def)
      moreover have "\<not> fle mp ((y # ys) ! Suc k)" using c by simp
      moreover have "\<forall>j<length (y # ys). fle ((y # ys) ! Suc k) ((y # ys) ! j)"
        using a k(4) by (auto simp: nth_Cons split: nat.splits)
      moreover have "\<forall>j<Suc k. \<not> fle ((y # ys) ! j) ((y # ys) ! Suc k)"
        using k(3) k(5) by (auto simp: nth_Cons split: nat.splits)
      ultimately show ?thesis by blast
    qed
  qed
qed

lemma argmin_first_min:
  assumes t: "t < length d"
    and least: "\<forall>j<length d. fle (d ! t) (d ! j)"
    and first: "\<forall>j<t. \<not> fle (d ! j) (d ! t)"
  shows "argmin d = Inr t"
proof (cases d)
  case Nil
  with t show ?thesis by simp
next
  case (Cons y ys)
  have nn: "NaN \<notin> set d"
  proof
    assume "NaN \<in> set d"
    then obtain j where "j < length d" "d ! j = NaN" by (auto simp: in_set_conv_nth)
    with least show False using fle_not_NaN by metis
  qed
  then have yn: "y \<noteq> NaN" and ysn: "NaN \<notin> set ys" using Cons by auto
  have am: "argmin d = Inr (argmin_loop y 0 1 ys)" using Cons yn by simp
  from argmin_loop_spec [OF yn ysn, of 0 1]
  show ?thesis
  proof
    assume h: "argmin_loop y 0 1 ys = 0 \<and> (\<forall>y'\<in>set ys. fle y y')"
    have "t = 0"
    proof (rule ccontr)
      assume "t \<noteq> 0"
      then have "0 < t" by simp
      with first have "\<not> fle (d ! 0) (d ! t)" by blast
      moreover have "d ! t \<in> set ys" using \<open>0 < t\<close> t Cons by (auto simp: nth_Cons split: nat.splits)
      ultimately show False using h Cons by simp
    qed
    with h am show ?thesis by simp
  next
    assume "\<exists>k<length ys. argmin_loop y 0 1 ys = 1 + k \<and> \<not> fle y (ys ! k) \<and>
             (\<forall>j<length ys. fle (ys ! k) (ys ! j)) \<and> (\<forall>j<k. \<not> fle (ys ! j) (ys ! k))"
    then obtain k where k: "k < length ys" "argmin_loop y 0 1 ys = 1 + k"
        "\<not> fle y (ys ! k)" "\<forall>j<length ys. fle (ys ! k) (ys ! j)" "\<forall>j<k. \<not> fle (ys ! j) (ys ! k)"
      by blast
    have dk: "d ! Suc k = ys ! k" using Cons by simp
    have kl: "Suc k < length d" using k(1) Cons by simp
    have "t = Suc k"
    proof (rule ccontr)
      assume ne: "t \<noteq> Suc k"
      show False
      proof (cases "t < Suc k")
        case True
        have "\<not> fle (d ! t) (d ! Suc k)"
        proof (cases t)
          case 0
          then show ?thesis using k(3) Cons by simp
        next
          case (Suc t')
          then have "t' < k" using True by simp
          with k(5) show ?thesis using Suc Cons by simp
        qed
        with least kl show False by blast
      next
        case False
        then have "Suc k < t" using ne by simp
        with first have "\<not> fle (d ! Suc k) (d ! t)" by blast
        moreover have "fle (d ! Suc k) (d ! t)"
        proof -
          obtain t' where t': "t = Suc t'" using \<open>Suc k < t\<close> by (cases t) auto
          then have "t' < length ys" using t Cons by simp
          with k(4) show ?thesis using t' Cons by simp
        qed
        ultimately show False by blast
      qed
    qed
    with k(2) am show ?thesis by simp
  qed
qed

subsection \<open>Results and broadcasting\<close>

lemma sequence_map_Inr:
  "(\<And>x. x \<in> set xs \<Longrightarrow> f x = Inr (g x)) \<Longrightarrow> sequence (map f xs) = Inr (map g xs)"
  by (induction xs) auto

lemma bzip_eq_len:
  assumes "length as = length bs"
    and "\<And>i. i < length as \<Longrightarrow> f (as ! i) (bs ! i) = Inr (g (as ! i) (bs ! i))"
  shows "bzip f as bs = Inr (map2 g as bs)"
proof -
  have "sequence (map (\<lambda>(a, b). f a b) (zip as bs)) = Inr (map (\<lambda>(a, b). g a b) (zip as bs))"
  proof (rule sequence_map_Inr)
    fix p assume "p \<in> set (zip as bs)"
    then obtain i where "i < length as" "p = (as ! i, bs ! i)"
      using assms(1) by (auto simp: in_set_zip)
    then show "(case p of (a, b) \<Rightarrow> f a b) = Inr (case p of (a, b) \<Rightarrow> g a b)"
      using assms(2) by simp
  qed
  with assms(1) show ?thesis by (simp add: bzip_def)
qed

lemma bzip_single_left: "bzip f [a] bs = sequence (map (f a) bs)"
  by (cases bs rule: list.exhaust) (auto simp: bzip_def length_Suc_conv)

lemma bzip_single_right: "bzip f as [b] = sequence (map (\<lambda>a. f a b) as)"
  by (cases as rule: list.exhaust) (auto simp: bzip_def length_Suc_conv)

lemma bc3_vec_right:
  assumes "has_shape w (R, C, length x)"
  shows "bc3 f w [[x]] = Inr (map (map (\<lambda>cell. map2 f cell x)) w)"
proof -
  have cell: "\<And>row cell. row \<in> set w \<Longrightarrow> cell \<in> set row \<Longrightarrow>
      bzip (\<lambda>a b. Inr (f a b)) cell x = Inr (map2 f cell x)"
    by (rule bzip_eq_len) (use assms in \<open>auto simp: has_shape_def list_all_iff\<close>)
  have row: "\<And>row. row \<in> set w \<Longrightarrow>
      bzip (bzip (\<lambda>a b. Inr (f a b))) row [x] = Inr (map (\<lambda>cell. map2 f cell x) row)"
    by (subst bzip_single_right) (rule sequence_map_Inr, rule cell)
  show ?thesis
    unfolding bc3_def by (subst bzip_single_right) (rule sequence_map_Inr, rule row)
qed

lemma bc3_vec_left:
  assumes "has_shape w (R, C, length x)"
  shows "bc3 f [[x]] w = Inr (map (map (\<lambda>cell. map2 f x cell)) w)"
proof -
  have cell: "\<And>row cell. row \<in> set w \<Longrightarrow> cell \<in> set row \<Longrightarrow>
      bzip (\<lambda>a b. Inr (f a b)) x cell = Inr (map2 f x cell)"
    by (rule bzip_eq_len) (use assms in \<open>auto simp: has_shape_def list_all_iff\<close>)
  have row: "\<And>row. row \<in> set w \<Longrightarrow>
      bzip (bzip (\<lambda>a b. Inr (f a b))) [x] row = Inr (map (\<lambda>cell. map2 f x cell) row)"
    by (subst bzip_single_left) (rule sequence_map_Inr, rule cell)
  show ?thesis
    unfolding bc3_def by (subst bzip_single_left) (rule sequence_map_Inr, rule row)
qed

lemma dist_fn_default_shape:
  assumes "has_shape w (R, C, length x)"
  shows "dist_fn_default x (Some w) = Inr (map (map (\<lambda>cell. norm_last (map2 fsub cell x))) w)"
  using bc3_vec_right [OF assms, of fsub] by (simp add: dist_fn_default_def comp_def)

lemma has_shape_iff_nth:
  "has_shape w (R, C, d) \<longleftrightarrow>
     length w = R \<and> (\<forall>r<R. length (w ! r) = C \<and> (\<forall>c<C. length (w ! r ! c) = d))"
  by (auto simp: has_shape_def list_all_length)

lemma has_shape2_iff_nth:
  "has_shape2 D (R, C) \<longleftrightarrow> length D = R \<and> (\<forall>r<R. length (D ! r) = C)"
  by (auto simp: has_shape2_def list_all_length)

lemma has_shape_lengths:
  "has_shape w (R, C, d) \<longleftrightarrow> map (map length) w = replicate R (replicate C d)"
  by (auto simp: has_shape_iff_nth list_eq_iff_nth_eq)

lemma bc3_same_shape:
  assumes "has_shape A (R, C, d)" and "has_shape B (R, C, d)"
  shows "bc3 f A B = Inr (map2 (map2 (map2 f)) A B)"
proof -
  have cell: "bzip (\<lambda>a b. Inr (f a b)) (A ! r ! c) (B ! r ! c) = Inr (map2 f (A ! r ! c) (B ! r ! c))"
    if "r < R" "c < C" for r c
    by (rule bzip_eq_len) (use that assms in \<open>auto simp: has_shape_iff_nth\<close>)
  have row: "bzip (bzip (\<lambda>a b. Inr (f a b))) (A ! r) (B ! r) = Inr (map2 (map2 f) (A ! r) (B ! r))"
    if "r < R" for r
    by (rule bzip_eq_len) (use that assms cell in \<open>auto simp: has_shape_iff_nth\<close>)
  show ?thesis
    unfolding bc3_def by (rule bzip_eq_len) (use assms row in \<open>auto simp: has_shape_iff_nth\<close>)
qed

lemma bc3_scaled:
  assumes "has_shape2 H (R, C)" and "has_shape B (R, C, d)"
  shows "bc3 f (map (map (\<lambda>h. [g h])) H) B =
           Inr (map2 (map2 (\<lambda>h cell. map (f (g h)) cell)) H B)"
proof -
  have cell: "bzip (\<lambda>a b. Inr (f a b)) [g h] cell = Inr (map (f (g h)) cell)" for h cell
    by (subst bzip_single_left) (rule sequence_map_Inr, rule refl)
  have row: "bzip (bzip (\<lambda>a b. Inr (f a b))) (map (\<lambda>h. [g h]) (H ! r)) (B ! r) =
               Inr (map2 (\<lambda>hh cell. map (f (hd hh)) cell) (map (\<lambda>h. [g h]) (H ! r)) (B ! r))"
    if "r < R" for r
    by (rule bzip_eq_len) (use that assms cell in \<open>auto simp: has_shape_iff_nth has_shape2_iff_nth\<close>)
  have "bc3 f (map (map (\<lambda>h. [g h])) H) B =
          Inr (map2 (\<lambda>hrow brow. map2 (\<lambda>hh cell. map (f (hd hh)) cell) hrow brow)
                 (map (map (\<lambda>h. [g h])) H) B)"
    unfolding bc3_def by (rule bzip_eq_len) (use assms row in \<open>auto simp: has_shape_iff_nth has_shape2_iff_nth\<close>)
  also have "map2 (\<lambda>hrow brow. map2 (\<lambda>hh cell. map (f (hd hh)) cell) hrow brow)
                 (map (map (\<lambda>h. [g h])) H) B = map2 (map2 (\<lambda>h cell. map (f (g h)) cell)) H B"
    by (simp add: zip_map1 case_prod_unfold comp_def)
  finally show ?thesis .
qed

subsection \<open>The best matching unit and the update\<close>

lemma length_concat_shape: "has_shape2 D (R, C) \<Longrightarrow> length (concat D) = R * C"
  by (induction D arbitrary: R) (auto simp: has_shape2_def)

lemma concat_nth_shape:
  "has_shape2 D (R, C) \<Longrightarrow> r < R \<Longrightarrow> c < C \<Longrightarrow> concat D ! (r * C + c) = D ! r ! c"
proof (induction D arbitrary: r R)
  case Nil
  then show ?case by (simp add: has_shape2_def)
next
  case (Cons row D)
  then obtain R' where R': "R = Suc R'" "has_shape2 D (R', C)" "length row = C"
    by (cases R) (auto simp: has_shape2_def)
  show ?case
  proof (cases r)
    case 0
    then show ?thesis using R' Cons.prems by (simp add: nth_append)
  next
    case (Suc r')
    then have "r' < R'" using Cons.prems R' by simp
    from Cons.IH [OF R'(2) this Cons.prems(3)] show ?thesis
      using Suc R' by (simp add: nth_append)
  qed
qed

lemma argmin_loop_bound: "mi < i \<Longrightarrow> argmin_loop mp mi i ys < i + length ys"
proof (induction ys arbitrary: mp mi i)
  case Nil
  then show ?case by simp
next
  case (Cons y ys)
  have a: "argmin_loop y i (Suc i) ys < Suc i + length ys" by (rule Cons.IH) simp
  have b: "argmin_loop mp mi (Suc i) ys < Suc i + length ys"
    by (rule Cons.IH) (use Cons.prems in simp)
  show ?case using a b by simp
qed

lemma argmin_bound: "d \<noteq> [] \<Longrightarrow> \<exists>i<length d. argmin d = Inr i"
proof (cases d)
  case Nil
  assume "d \<noteq> []"
  with Nil show ?thesis by simp
next
  case (Cons y ys)
  have "argmin_loop y 0 1 ys < 1 + length ys" by (rule argmin_loop_bound) simp
  with Cons show ?thesis by simp
qed

lemma find_bmu_returns:
  assumes "dist_fn som x (weights som) = Inr D" and "has_shape2 D (R, C)"
    and "grid_sz som = (R, C)" and "0 < R" and "0 < C"
  shows "\<exists>br<R. \<exists>bc<C. find_bmu som x = Inr (br, bc)"
proof -
  have len: "length (concat D) = R * C" using assms(2) by (rule length_concat_shape)
  then have "length (concat D) \<noteq> 0" using assms(4,5) by simp
  then have "concat D \<noteq> []" by (metis list.size(3))
  then obtain i where i: "i < R * C" "argmin (concat D) = Inr i"
    using argmin_bound len by metis
  have "i div C < R" using i(1) by (simp add: less_mult_imp_div_less)
  moreover have "i mod C < C" using assms(5) by simp
  moreover have "find_bmu som x = Inr (i div C, i mod C)"
    using assms(1,3) i by (simp add: find_bmu_def unravel_index_def)
  ultimately show ?thesis by blast
qed

lemma neighborhood_shape:
  assumes "grid_sz som = (R, C)"
  shows "has_shape2 (neighborhood_function som (grid_distances som bmu) sigma) (R, C)"
  using assms by (simp add: has_shape2_iff_nth neighborhood_function_def grid_distances_def)

lemma neighborhood_nth:
  assumes "grid_sz som = (R, C)" and "r < R" and "c < C"
  shows "neighborhood_function som (grid_distances som bmu) sigma ! r ! c =
           neighborhood_weight bmu r c sigma"
  using assms by (simp add: neighborhood_function_def grid_distances_def neighborhood_weight_def)

lemma has_shape_same_lengths:
  "has_shape a s \<Longrightarrow> has_shape b s \<Longrightarrow> map (map length) a = map (map length) b"
  by (cases s) (simp add: has_shape_lengths)

lemma has_shape_cong_lengths:
  "map (map length) a = map (map length) b \<Longrightarrow> has_shape a s = has_shape b s"
  by (cases s) (simp add: has_shape_lengths)

lemma has_shape_map2:
  assumes "has_shape A (R, C, d)" and "has_shape B (R, C, d)"
  shows "has_shape (map2 (map2 (map2 f)) A B) (R, C, d)"
  using assms by (simp add: has_shape_iff_nth)

lemma has_shape_scaled:
  assumes "has_shape2 H (R, C)" and "has_shape B (R, C, d)"
  shows "has_shape (map2 (map2 (\<lambda>h cell. map (f h) cell)) H B) (R, C, d)"
  using assms by (simp add: has_shape_iff_nth has_shape2_iff_nth)

lemma has_shape_map_cells:
  assumes "has_shape w (R, C, d)" and "\<And>cell. length cell = d \<Longrightarrow> length (f cell) = d'"
  shows "has_shape (map (map f) w) (R, C, d')"
  using assms by (simp add: has_shape_iff_nth)

lemma update_weights_formula:
  assumes w: "weights som = Some w" and sh: "has_shape w (R, C, length x)"
    and gs: "grid_sz som = (R, C)" and bmu: "find_bmu som x = Inr bmu"
  shows "update_weights som x lr sigma =
           (som\<lparr>weights := Some
              (map2 (map2 (map2 fadd)) w
                 (map2 (map2 (\<lambda>h cell. map (fmul (fmul lr h)) cell))
                    (neighborhood_function som (grid_distances som bmu) sigma)
                    (map (map (\<lambda>cell. map2 fsub x cell)) w)))\<rparr>, Inr ())"
proof -
  let ?H = "neighborhood_function som (grid_distances som bmu) sigma"
  let ?diff = "map (map (\<lambda>cell. map2 fsub x cell)) w"
  let ?delta = "map2 (map2 (\<lambda>h cell. map (fmul (fmul lr h)) cell)) ?H ?diff"
  have Hs: "has_shape2 ?H (R, C)" using gs by (rule neighborhood_shape)
  have d1: "bc3 fsub [[x]] w = Inr ?diff" using sh by (rule bc3_vec_left)
  have ds: "has_shape ?diff (R, C, length x)"
    using sh by (rule has_shape_map_cells) simp
  have d2: "bc3 fmul (map (map (\<lambda>h. [fmul lr h])) ?H) ?diff = Inr ?delta"
    using Hs ds by (rule bc3_scaled)
  have dl: "has_shape ?delta (R, C, length x)"
    using Hs ds by (rule has_shape_scaled)
  have d3: "bc3 fadd w ?delta = Inr (map2 (map2 (map2 fadd)) w ?delta)"
    using sh dl by (rule bc3_same_shape)
  have rs: "has_shape (map2 (map2 (map2 fadd)) w ?delta) (R, C, length x)"
    using sh dl by (rule has_shape_map2)
  have d4: "iadd w ?delta = Inr (map2 (map2 (map2 fadd)) w ?delta)"
    using d3 has_shape_same_lengths [OF rs sh] by (simp add: iadd_def)
  show ?thesis
    using w bmu d1 d2 d4 by (simp add: update_weights_def Let_def)
qed

lemma update_nth:
  assumes sh: "has_shape w (R, C, length x)" and gs: "grid_sz som = (R, C)"
    and r: "r < R" and c: "c < C" and k: "k < length x"
  shows "map2 (map2 (map2 fadd)) w
           (map2 (map2 (\<lambda>h cell. map (fmul (fmul lr h)) cell))
              (neighborhood_function som (grid_distances som bmu) sigma)
              (map (map (\<lambda>cell. map2 fsub x cell)) w)) ! r ! c ! k =
         fadd (w ! r ! c ! k)
           (fmul (fmul lr (neighborhood_weight bmu r c sigma)) (fsub (x ! k) (w ! r ! c ! k)))"
proof -
  let ?H = "neighborhood_function som (grid_distances som bmu) sigma"
  have Hs: "has_shape2 ?H (R, C)" using gs by (rule neighborhood_shape)
  have Hn: "?H ! r ! c = neighborhood_weight bmu r c sigma"
    using gs r c by (rule neighborhood_nth)
  have l1: "length w = R" "length (w ! r) = C" "length (w ! r ! c) = length x"
    using sh r c by (simp_all add: has_shape_iff_nth)
  have l2: "length ?H = R" "length (?H ! r) = C"
    using Hs r by (simp_all add: has_shape2_iff_nth)
  show ?thesis using l1 l2 r c k Hn by simp
qed

lemma kernel_denominator:
  assumes "sigma \<noteq> NaN" and "\<not> square_vanishes sigma"
  shows "fmul (Fin 2) (fmul sigma sigma) = PInf \<or>
         (\<exists>z. 0 < z \<and> fmul (Fin 2) (fmul sigma sigma) = Fin z)"
proof (cases sigma)
  case (Fin s)
  then have s: "underflow_bound < s * s" using assms by (simp add: square_vanishes_def)
  then have a: "\<bar>s * s\<bar> = s * s" "\<bar>2 * (s * s)\<bar> = 2 * (s * s)"
    using underflow_bound_pos by simp_all
  have 1: "fmul sigma sigma = PInf \<or> fmul sigma sigma = Fin (s * s)"
    using Fin s a one_less_overflow_bound by (simp add: round_range_def)
  have 2: "fmul (Fin 2) (Fin (s * s)) = PInf \<or> fmul (Fin 2) (Fin (s * s)) = Fin (2 * (s * s))"
    using s a underflow_bound_pos by (simp add: round_range_def)
  have 3: "fmul (Fin 2) PInf = PInf" by (simp add: scale_inf_def)
  have "0 < 2 * (s * s)" using s underflow_bound_pos by simp
  then show ?thesis using 1 2 3 by metis
qed (use assms in \<open>auto simp: scale_inf_def\<close>)

lemma kernel_value:
  assumes "t = PInf \<or> (\<exists>z. 0 < z \<and> t = Fin z)" and "0 \<le> d"
  shows "\<exists>h. fexp (fdiv (Fin (- d)) t) = Fin h \<and> 0 \<le> h \<and> h \<le> 1 \<and> (d = 0 \<longrightarrow> h = 1)"
proof -
  have q: "fdiv (Fin (- d)) t = NInf \<or>
           (\<exists>v. fdiv (Fin (- d)) t = Fin v \<and> v \<le> 0 \<and> (d = 0 \<longrightarrow> v = 0))"
    using assms(1)
  proof
    assume "t = PInf"
    then show ?thesis by simp
  next
    assume "\<exists>z. 0 < z \<and> t = Fin z"
    then obtain z where z: "0 < z" "t = Fin z" by blast
    have le: "- d / z \<le> 0" using z(1) assms(2) by (simp add: divide_le_0_iff)
    show ?thesis
    proof (cases "d = 0")
      case True
      then show ?thesis using z by (simp add: round_range_zero)
    next
      case False
      then show ?thesis using z round_range_nonpos [OF le] by auto
    qed
  qed
  then show ?thesis
  proof
    assume "fdiv (Fin (- d)) t = NInf"
    moreover from this have "d \<noteq> 0"
      using assms(1) by (auto simp: round_range_zero split: if_splits)
    ultimately show ?thesis by simp
  next
    assume "\<exists>v. fdiv (Fin (- d)) t = Fin v \<and> v \<le> 0 \<and> (d = 0 \<longrightarrow> v = 0)"
    then obtain v where v: "fdiv (Fin (- d)) t = Fin v" "v \<le> 0" "d = 0 \<longrightarrow> v = 0" by blast
    have e: "0 \<le> exp v" "exp v \<le> 1" using v(2) by simp_all
    have "\<bar>exp v\<bar> = exp v" by simp
    then have "\<bar>exp v\<bar> < overflow_bound" using e(2) one_less_overflow_bound by linarith
    then have "round_range (exp v) = Fin (exp v) \<or> round_range (exp v) = Fin 0"
      by (rule round_range_finite)
    then show ?thesis using v e by (cases "d = 0") (auto simp: round_range_one)
  qed
qed

lemma neighborhood_weight_bmu:
  assumes "sigma \<noteq> NaN" and "\<not> square_vanishes sigma"
  shows "neighborhood_weight bmu (fst bmu) (snd bmu) sigma = Fin 1"
  using kernel_value [OF kernel_denominator [OF assms], of 0]
  by (simp add: neighborhood_weight_def)

lemma neighborhood_weight_range:
  assumes "sigma \<noteq> NaN" and "\<not> square_vanishes sigma"
  shows "fle (Fin 0) (neighborhood_weight bmu r c sigma) \<and>
         fle (neighborhood_weight bmu r c sigma) (Fin 1)"
proof -
  have "0 \<le> real_of_int ((int (fst bmu) - int r)\<^sup>2 + (int (snd bmu) - int c)\<^sup>2)"
    by simp
  from kernel_value [OF kernel_denominator [OF assms] this]
  show ?thesis by (auto simp: neighborhood_weight_def)
qed

lemma kernel_zero_sigma:
  "fexp (fdiv (Fin (- d)) (fmul (Fin 2) (fmul (Fin 0) (Fin 0)))) =
     (if d = 0 then NaN else if 0 < d then Fin 0 else PInf)"
  by (simp add: scale_inf_def round_range_zero)

lemma neighborhood_weight_zero_sigma:
  "neighborhood_weight bmu r c (Fin 0) = (if r = fst bmu \<and> c = snd bmu then NaN else Fin 0)"
proof -
  define d where "d = (int (fst bmu) - int r)\<^sup>2 + (int (snd bmu) - int c)\<^sup>2"
  have z: "d = 0 \<longleftrightarrow> r = fst bmu \<and> c = snd bmu"
    unfolding d_def by (auto simp: sum_power2_eq_zero_iff)
  have nn: "0 \<le> d" unfolding d_def by simp
  have "neighborhood_weight bmu r c (Fin 0) =
          fexp (fdiv (Fin (- real_of_int d)) (fmul (Fin 2) (fmul (Fin 0) (Fin 0))))"
    unfolding d_def neighborhood_weight_def ..
  also have "\<dots> = (if real_of_int d = 0 then NaN else if 0 < real_of_int d then Fin 0 else PInf)"
    by (rule kernel_zero_sigma)
  also have "\<dots> = (if r = fst bmu \<and> c = snd bmu then NaN else Fin 0)"
    using z nn by auto
  finally show ?thesis .
qed

lemma fmul_NaN_right: "fmul a NaN = NaN"
  by (cases a) auto

lemma fadd_NaN_right: "fadd a NaN = NaN"
  by (cases a) auto

lemma update_weights_total:
  assumes w: "weights som = Some w" and sh: "has_shape w (R, C, length x)"
    and gs: "grid_sz som = (R, C)" and R: "0 < R" and C: "0 < C"
    and D: "dist_fn som x (Some w) = Inr D" and Ds: "has_shape2 D (R, C)"
  shows "\<exists>bmu w'. find_bmu som x = Inr bmu \<and> fst bmu < R \<and> snd bmu < C \<and>
           update_weights som x lr sigma = (som\<lparr>weights := Some w'\<rparr>, Inr ()) \<and>
           has_shape w' (R, C, length x) \<and>
           (\<forall>r<R. \<forall>c<C. \<forall>k<length x.
              w' ! r ! c ! k =
                fadd (w ! r ! c ! k)
                  (fmul (fmul lr (neighborhood_weight bmu r c sigma))
                     (fsub (x ! k) (w ! r ! c ! k))))"
proof -
  from D w have "dist_fn som x (weights som) = Inr D" by simp
  from find_bmu_returns [OF this Ds gs R C]
  obtain br bc where b: "br < R" "bc < C" "find_bmu som x = Inr (br, bc)" by blast
  let ?H = "neighborhood_function som (grid_distances som (br, bc)) sigma"
  let ?diff = "map (map (\<lambda>cell. map2 fsub x cell)) w"
  let ?delta = "map2 (map2 (\<lambda>h cell. map (fmul (fmul lr h)) cell)) ?H ?diff"
  let ?w' = "map2 (map2 (map2 fadd)) w ?delta"
  have u: "update_weights som x lr sigma = (som\<lparr>weights := Some ?w'\<rparr>, Inr ())"
    using w sh gs b(3) by (rule update_weights_formula)
  have "has_shape ?diff (R, C, length x)" using sh by (rule has_shape_map_cells) simp
  with neighborhood_shape [OF gs] have "has_shape ?delta (R, C, length x)"
    by (rule has_shape_scaled)
  with sh have s': "has_shape ?w' (R, C, length x)" by (rule has_shape_map2)
  have "\<forall>r<R. \<forall>c<C. \<forall>k<length x.
          ?w' ! r ! c ! k =
            fadd (w ! r ! c ! k)
              (fmul (fmul lr (neighborhood_weight (br, bc) r c sigma))
                 (fsub (x ! k) (w ! r ! c ! k)))"
    using update_nth [OF sh gs] by blast
  with b u s' show ?thesis by (intro exI [of _ "(br, bc)"] exI [of _ ?w']) simp
qed


lemma row_major_index:
  assumes "(c::nat) < C" and "c' < C" and "r' * C + c' < r * C + c"
  shows "r' < r \<or> (r' = r \<and> c' < c)"
proof (rule ccontr)
  assume "\<not> (r' < r \<or> (r' = r \<and> c' < c))"
  then have "r < r' \<or> (r' = r \<and> c \<le> c')" by arith
  then show False
  proof
    assume "r < r'"
    then have "Suc r \<le> r'" by simp
    then have "Suc r * C \<le> r' * C" by (rule mult_le_mono1)
    with assms show False by simp
  next
    assume "r' = r \<and> c \<le> c'"
    with assms show False by simp
  qed
qed


lemmas eval_defs = find_bmu_def dist_fn_default_def bc3_def bzip_def norm_last_def
        fsum_def fsub_def unravel_index_def fge_def update_weights_def grid_distances_def
        neighborhood_function_def iadd_def scale_inf_def Let_def numeral_2_eq_2
        round_range_def overflow_bound_def underflow_bound_def


subsection \<open>The two closest cells\<close>

lemma sequence_all_Inl:
  "xs \<noteq> [] \<Longrightarrow> (\<And>x. x \<in> set xs \<Longrightarrow> f x = Inl e) \<Longrightarrow> sequence (map f xs) = Inl e"
  by (cases xs) auto

lemma sort_le_trans: "sort_le a b \<Longrightarrow> sort_le b c \<Longrightarrow> sort_le a c"
  unfolding sort_le_def by (rule order_trans)

lemma sample_argpartition_ok: "argpartition_ok sample_ext"
  unfolding argpartition_ok_def
proof (intro allI conjI impI)
  fix a :: "float64 list" and k :: nat
  assume "length a \<le> k"
  then show "argpartition sample_ext a k = Inl ValueError"
    by (simp add: sample_ext_def sample_argpartition_def)
next
  fix a :: "float64 list" and k :: nat
  assume k: "k < length a"
  let ?f = "\<lambda>i. sort_key_of (a ! i)"
  let ?idx = "sort_key ?f [0..<length a]"
  have ap: "argpartition sample_ext a k = Inr ?idx"
    using k by (simp add: sample_ext_def sample_argpartition_def)
  have ms: "mset ?idx = mset [0..<length a]" by simp
  have len: "length ?idx = length a" by simp
  have so: "sorted (map ?f ?idx)" by (rule sorted_sort_key)
  have mono: "?f (?idx ! i) \<le> ?f (?idx ! j)" if "i \<le> j" "j < length a" for i j
  proof -
    have "map ?f ?idx ! i \<le> map ?f ?idx ! j"
      using so that len by (intro sorted_nth_mono) simp_all
    then show ?thesis using that len by simp
  qed
  have lo: "\<forall>j<k. sort_le (a ! (?idx ! j)) (a ! (?idx ! k))"
    using mono k by (simp add: sort_le_def)
  have hi: "\<forall>j. k < j \<and> j < length a \<longrightarrow> sort_le (a ! (?idx ! k)) (a ! (?idx ! j))"
    using mono k by (simp add: sort_le_def)
  from ap ms lo hi
  show "\<exists>idx. argpartition sample_ext a k = Inr idx \<and> mset idx = mset [0..<length a] \<and>
          (\<forall>j<k. sort_le (a ! (idx ! j)) (a ! (idx ! k))) \<and>
          (\<forall>j. k < j \<and> j < length a \<longrightarrow> sort_le (a ! (idx ! k)) (a ! (idx ! j)))"
    by blast
qed

lemma perm_index:
  assumes "mset idx = mset [0..<n]" and "j < n"
  shows "\<exists>m<n. idx ! m = j"
proof -
  have "j \<in> set idx" using assms by (metis atLeastLessThan_iff set_upt mset_eq_setD zero_le)
  moreover have "length idx = n" using assms(1) by (metis length_upt mset_eq_length minus_nat.diff_0)
  ultimately show ?thesis by (metis in_set_conv_nth)
qed

lemma perm_distinct:
  assumes "mset idx = mset [0..<n]"
  shows "distinct idx" and "length idx = n" and "\<forall>m<n. idx ! m < n"
proof -
  show "distinct idx" using assms by (metis distinct_upt mset_eq_imp_distinct_iff)
  show l: "length idx = n" using assms by (metis length_upt mset_eq_length minus_nat.diff_0)
  have "set idx = {0..<n}" using assms by (metis mset_eq_setD set_upt)
  then show "\<forall>m<n. idx ! m < n" using l by (metis atLeastLessThan_iff nth_mem)
qed

lemma adjacency_two_closest:
  assumes ap: "argpartition_ok ext" and D: "dist_fn som x (weights som) = Inr D"
    and Ds: "has_shape2 D (R, C)" and gs: "grid_sz som = (R, C)" and n3: "3 \<le> R * C"
  shows "\<exists>i1 i2. two_closest (concat D) i1 i2 \<and>
           check_bmu_adjacency ext som x = Inr (non_adjacent (cell_of C i1) (cell_of C i2))"
proof -
  let ?d = "concat D"
  have len: "length ?d = R * C" using Ds by (rule length_concat_shape)
  then have k: "2 < length ?d" using n3 by simp
  from ap k obtain idx where idx: "argpartition ext ?d 2 = Inr idx"
      "mset idx = mset [0..<length ?d]"
      "\<forall>j<2. sort_le (?d ! (idx ! j)) (?d ! (idx ! 2))"
      "\<forall>j. 2 < j \<and> j < length ?d \<longrightarrow> sort_le (?d ! (idx ! 2)) (?d ! (idx ! j))"
    unfolding argpartition_ok_def by blast
  note p = perm_distinct [OF idx(2)]
  let ?i1 = "idx ! 0" and ?i2 = "idx ! 1"
  have "0 < length ?d" "1 < length ?d" using k by linarith+
  with p(3) have "?i1 < length ?d" "?i2 < length ?d" by blast+
  then have b: "?i1 < R * C" "?i2 < R * C" using len by simp_all
  have li: "0 < length idx" "1 < length idx" using p(2) k by linarith+
  have ne: "?i1 \<noteq> ?i2" using nth_eq_iff_index_eq [OF p(1) li] by simp
  have tk: "take 2 idx = [?i1, ?i2]"
    using li by (simp add: take_Suc_conv_app_nth numeral_2_eq_2)
  have closest: "sort_le (?d ! ?i1) (?d ! j) \<and> sort_le (?d ! ?i2) (?d ! j)"
    if j: "j < length ?d" "j \<noteq> ?i1" "j \<noteq> ?i2" for j
  proof -
    from perm_index [OF idx(2) j(1)] obtain m where m: "m < length ?d" "idx ! m = j" by blast
    have "m \<noteq> 0" using m(2) j(2) by (cases "m = 0") simp_all
    moreover have "m \<noteq> 1" using m(2) j(3) by (cases "m = 1") simp_all
    ultimately have "2 \<le> m" by simp
    have a: "sort_le (?d ! ?i1) (?d ! (idx ! 2))" "sort_le (?d ! ?i2) (?d ! (idx ! 2))"
      using idx(3) by simp_all
    have "sort_le (?d ! (idx ! 2)) (?d ! j)"
    proof (cases "m = 2")
      case True
      then show ?thesis using m by (simp add: sort_le_def)
    next
      case False
      then have "2 < m" using \<open>2 \<le> m\<close> by simp
      with idx(4) m show ?thesis by blast
    qed
    with a show ?thesis using sort_le_trans by blast
  qed
  have tc: "two_closest ?d ?i1 ?i2"
    using b ne closest len by (simp add: two_closest_def)
  have Cpos: "0 < C" using n3 by (cases C) simp_all
  have u: "unravel_index ?i1 (R, C) = Inr (cell_of C ?i1)"
      "unravel_index ?i2 (R, C) = Inr (cell_of C ?i2)"
    using b by (simp_all add: unravel_index_def cell_of_def)
  have "check_bmu_adjacency ext som x = Inr (non_adjacent (cell_of C ?i1) (cell_of C ?i2))"
    using D idx(1) tk u gs
    by (simp add: check_bmu_adjacency_def unpack_differs_def non_adjacent_def split: bool.splits)
  with tc show ?thesis by blast
qed

lemma flags_exist:
  assumes "\<forall>x\<in>set X. \<exists>i1 i2. P x i1 i2 \<and> chk x = Inr (Q i1 i2)"
  shows "\<exists>ps. length ps = length X \<and>
           (\<forall>m<length X. P (X ! m) (fst (ps ! m)) (snd (ps ! m))) \<and>
           sequence (map chk X) = Inr (map (\<lambda>p. Q (fst p) (snd p)) ps)"
  using assms
proof (induction X)
  case Nil
  then show ?case by simp
next
  case (Cons x X)
  then obtain ps where ps: "length ps = length X"
      "\<forall>m<length X. P (X ! m) (fst (ps ! m)) (snd (ps ! m))"
      "sequence (map chk X) = Inr (map (\<lambda>p. Q (fst p) (snd p)) ps)"
    by auto
  from Cons.prems obtain i1 i2 where i: "P x i1 i2" "chk x = Inr (Q i1 i2)" by auto
  let ?ps = "(i1, i2) # ps"
  have "length ?ps = length (x # X)" using ps(1) by simp
  moreover have "\<forall>m<length (x # X). P ((x # X) ! m) (fst (?ps ! m)) (snd (?ps ! m))"
    using i(1) ps(2) by (auto simp: nth_Cons split: nat.splits)
  moreover have "sequence (map chk (x # X)) = Inr (map (\<lambda>p. Q (fst p) (snd p)) ?ps)"
    using i(2) ps(3) by simp
  ultimately show ?case by blast
qed

subsection \<open>Shapes, initialisation and the training loop\<close>

lemma iadd_lengths: "iadd w delta = Inr w' \<Longrightarrow> map (map length) w' = map (map length) w"
  by (auto simp: iadd_def split: sum.splits if_splits)

lemma update_weights_shape:
  assumes "weights_shape som s"
  shows "weights_shape (fst (update_weights som x lr sigma)) s"
proof -
  from assms obtain w where w: "weights som = Some w" "has_shape w s"
    by (auto simp: weights_shape_def split: option.splits)
  show ?thesis
  proof (cases "snd (update_weights som x lr sigma)")
    case (Inl e)
    then have "fst (update_weights som x lr sigma) = som"
      by (auto simp: update_weights_def Let_def split: sum.splits option.splits)
    with assms show ?thesis by simp
  next
    case (Inr u)
    then obtain delta w' where "iadd w delta = Inr w'"
      "fst (update_weights som x lr sigma) = som\<lparr>weights := Some w'\<rparr>"
      using w(1) by (auto simp: update_weights_def Let_def split: sum.splits option.splits)
    with w(2) show ?thesis
      using has_shape_cong_lengths [OF iadd_lengths] by (simp add: weights_shape_def)
  qed
qed

lemma fit_samples_shape:
  "weights_shape (fst st) s \<Longrightarrow> weights_shape (fst (fst (fit_samples st epoch len i X))) s"
proof (induction X arbitrary: st i)
  case Nil
  then show ?case by simp
next
  case (Cons x xs)
  obtain som lr_s sigma_s where st: "st = (som, lr_s, sigma_s)" by (cases st) auto
  have som: "weights_shape som s" using Cons.prems st by simp
  let ?t = "int (epoch * len + i)"
  obtain lr_s' r1 where s1: "step lr_s ?t = (lr_s', r1)" by (cases "step lr_s ?t")
  show ?case
  proof (cases r1)
    case (Inl e)
    with s1 st som show ?thesis by simp
  next
    case lr: (Inr lr)
    obtain sigma_s' r2 where s2: "step sigma_s ?t = (sigma_s', r2)" by (cases "step sigma_s ?t")
    show ?thesis
    proof (cases r2)
      case (Inl e)
      with s1 lr s2 st som show ?thesis by simp
    next
      case sg: (Inr sigma)
      obtain som' r3 where u: "update_weights som x lr sigma = (som', r3)"
        by (cases "update_weights som x lr sigma")
      have sh: "weights_shape som' s"
        using update_weights_shape [OF som, of x lr sigma] u by simp
      show ?thesis
      proof (cases r3)
        case (Inl e)
        with s1 lr s2 sg u sh st show ?thesis by simp
      next
        case (Inr v)
        have "weights_shape (fst (fst (fit_samples (som', lr_s', sigma_s') epoch len (Suc i) xs))) s"
          by (rule Cons.IH) (simp add: sh)
        with s1 lr s2 sg u Inr st show ?thesis by simp
      qed
    qed
  qed
qed

lemma fit_epochs_shape:
  "weights_shape (fst st) s \<Longrightarrow>
     weights_shape (fst (fst (fit_epochs ext X shuffle st epochs qes tes))) s"
proof (induction epochs arbitrary: st qes tes)
  case Nil
  then show ?case by simp
next
  case (Cons epoch epochs)
  let ?X' = "if shuffle then permutation ext epoch X else X"
  obtain st' r where fs: "fit_samples st epoch (length X) 0 ?X' = (st', r)"
    by (cases "fit_samples st epoch (length X) 0 ?X'")
  have sh: "weights_shape (fst st') s"
    using fit_samples_shape [OF Cons.prems, of epoch "length X" 0 ?X'] fs by simp
  obtain som lr_s sigma_s where st': "st' = (som, lr_s, sigma_s)" by (cases st') auto
  show ?case
  proof (cases r)
    case (Some e)
    with fs sh st' show ?thesis by (simp add: Let_def)
  next
    case None
    show ?thesis
    proof (cases "snd (quantization_error som X)")
      case (Inl e)
      with fs None sh st' show ?thesis
        by (simp add: Let_def quantization_error_def split: sum.splits)
    next
      case qe: (Inr qe)
      show ?thesis
      proof (cases "snd (topographic_error ext som X)")
        case (Inl e)
        with fs None sh st' qe show ?thesis
          by (simp add: Let_def quantization_error_def topographic_error_def split: sum.splits)
      next
        case (Inr te)
        have "weights_shape (fst (fst (fit_epochs ext X shuffle (som, lr_s, sigma_s) epochs
                 (qes @ [qe]) (tes @ [te])))) s"
          by (rule Cons.IH) (use sh st' in simp)
        moreover have "quantization_error som X = (som, Inr qe)"
          using qe by (simp add: quantization_error_def)
        moreover have "topographic_error ext som X = (som, Inr te)"
          using Inr by (simp add: topographic_error_def)
        ultimately show ?thesis using fs None st' by (simp add: Let_def)
      qed
    qed
  qed
qed

lemma fit_shape:
  assumes "weights_shape som s"
  shows "weights_shape (fst (fit ext som X n lrs sgs sh)) s"
proof -
  have ne: "weights som \<noteq> None"
    using assms by (auto simp: weights_shape_def split: option.splits)
  obtain lr_s where lr: "(case lrs of
                   None \<Rightarrow> Scheduler_init (Fin 1) (Fin (1 / 100)) 100 (int (length X))
                             (int n) exp_sched
                 | Some s \<Rightarrow> Inr s) = Inr lr_s"
    by (cases lrs) (auto simp: Scheduler_init_def)
  obtain sigma_s where sg: "(case sgs of
                        None \<Rightarrow> Scheduler_init
                                  (Fin (real (max (fst (grid_sz som)) (snd (grid_sz som))) / 2))
                                  (Fin 1) 100 (int (length X)) (int n) exp_sched
                      | Some s \<Rightarrow> Inr s) = Inr sigma_s"
    by (cases sgs) (auto simp: Scheduler_init_def)
  obtain som2 l2 s2 r where fe:
    "fit_epochs ext X sh (som, lr_s, sigma_s) [0..<n] [] [] = ((som2, l2, s2), r)"
    by (cases "fit_epochs ext X sh (som, lr_s, sigma_s) [0..<n] [] []") auto
  have "weights_shape som2 s"
    using fit_epochs_shape [of "(som, lr_s, sigma_s)" s ext X sh "[0..<n]" "[]" "[]"] assms fe
    by simp
  moreover have "fst (fit ext som X n lrs sgs sh) = som2"
    using ne lr sg fe by (cases r) (auto simp: fit_def split: prod.splits)
  ultimately show ?thesis by simp
qed

lemma bc3_outer:
  "bc3 f (map (map (\<lambda>a. [a])) G) [[v]] = Inr (map (map (\<lambda>a. map (f a) v)) G)"
proof -
  have cell: "bzip (\<lambda>a b. Inr (f a b)) [a] v = Inr (map (f a) v)" for a
    by (subst bzip_single_left) (rule sequence_map_Inr, rule refl)
  have row: "bzip (bzip (\<lambda>a b. Inr (f a b))) (map (\<lambda>a. [a]) g) [v] =
               Inr (map (\<lambda>a. map (f a) v) g)" for g
  proof -
    have "sequence (map (\<lambda>c. bzip (\<lambda>a b. Inr (f a b)) c v) (map (\<lambda>a. [a]) g)) =
            Inr (map (\<lambda>c. map (f (hd c)) v) (map (\<lambda>a. [a]) g))"
      by (rule sequence_map_Inr) (auto simp: cell)
    then show ?thesis by (subst bzip_single_right) (simp add: comp_def)
  qed
  have "sequence (map (\<lambda>r. bzip (bzip (\<lambda>a b. Inr (f a b))) r [v]) (map (map (\<lambda>a. [a])) G)) =
          Inr (map (\<lambda>r. map (\<lambda>c. map (f (hd c)) v) r) (map (map (\<lambda>a. [a])) G))"
    by (rule sequence_map_Inr) (auto simp: row comp_def)
  then show ?thesis unfolding bc3_def by (subst bzip_single_right) (simp add: comp_def)
qed

lemma length_linspace: "length (linspace n) = n"
  by (simp add: linspace_def)

lemma initialize_weights_pca_shape:
  assumes ok: "pca_ok ext" and fit: "pca_fit ext X = Inr p"
  shows "\<exists>w. initialize_weights_pca ext som X = Inr w \<and>
              has_shape w (fst (grid_sz som), fst (grid_sz som), length (hd X))"
proof -
  from ok fit have p: "length (explained_variance p) = 2" "length (components p) = 2"
      "list_all (\<lambda>c. length c = length (hd X)) (components p)"
    unfolding pca_ok_def by blast+
  let ?n = "fst (grid_sz som)" and ?m = "length (hd X)"
  let ?alpha = "map (\<lambda>a. fmul a (fsqrt (explained_variance p ! 0))) (linspace ?n)"
  let ?beta = "map (\<lambda>b. fmul b (fsqrt (explained_variance p ! 1))) (linspace ?n)"
  let ?ag = "replicate (length ?beta) ?alpha"
  let ?bg = "map (\<lambda>b. replicate (length ?alpha) b) ?beta"
  let ?A = "map (map (\<lambda>a. map (fmul a) (components p ! 0))) ?ag"
  let ?B = "map (map (\<lambda>a. map (fmul a) (components p ! 1))) ?bg"
  have c: "length (components p ! 0) = ?m" "length (components p ! 1) = ?m"
    using p(2,3) by (simp_all add: list_all_length)
  have A: "bc3 fmul (map (map (\<lambda>a. [a])) ?ag) [[components p ! 0]] = Inr ?A" by (rule bc3_outer)
  have B: "bc3 fmul (map (map (\<lambda>a. [a])) ?bg) [[components p ! 1]] = Inr ?B" by (rule bc3_outer)
  have As: "has_shape ?A (?n, ?n, ?m)"
    using c by (simp add: has_shape_iff_nth length_linspace)
  have Bs: "has_shape ?B (?n, ?n, ?m)"
    using c by (simp add: has_shape_iff_nth length_linspace)
  have S: "bc3 fadd ?A ?B = Inr (map2 (map2 (map2 fadd)) ?A ?B)"
    using As Bs by (rule bc3_same_shape)
  have Ss: "has_shape (map2 (map2 (map2 fadd)) ?A ?B) (?n, ?n, ?m)"
    using As Bs by (rule has_shape_map2)
  have "initialize_weights_pca ext som X = Inr (map2 (map2 (map2 fadd)) ?A ?B)"
    unfolding initialize_weights_pca_def Let_def using fit p(1,2) A B S by simp
  with Ss show ?thesis by blast
qed

lemma sample_randn_ok: "randn_ok sample_ext"
  by (simp add: randn_ok_def sample_ext_def sample_randn_def has_shape_iff_nth)

lemma sample_pca_ok: "pca_ok sample_ext"
  by (auto simp: pca_ok_def sample_ext_def sample_pca_def unit_vec_def split: if_splits)

lemma sample_permutation_ok: "permutation_ok sample_ext"
  by (simp add: permutation_ok_def sample_ext_def)

lemma transform_loop_sequence:
  "length cs = i + length xs \<Longrightarrow>
     transform_loop som cs i xs =
       (case sequence (map (find_bmu som) xs) of
          Inl e \<Rightarrow> Inl e
        | Inr ps \<Rightarrow> Inr (take i cs @ ps))"
proof (induction xs arbitrary: cs i)
  case Nil
  then show ?case by simp
next
  case (Cons x xs)
  show ?case
  proof (cases "find_bmu som x")
    case (Inl e)
    then show ?thesis by simp
  next
    case (Inr p)
    have l: "length (cs[i := p]) = Suc i + length xs" using Cons.prems by simp
    have t: "take (Suc i) (cs[i := p]) = take i cs @ [p]"
      using Cons.prems by (simp add: take_Suc_conv_app_nth)
    show ?thesis
      using Inr Cons.IH [OF l] t by (simp split: sum.splits)
  qed
qed

section \<open>Properties of the scheduler\<close>

lemma ln_in_range_bound:
  assumes "0 < q" and "in_range q"
  shows "\<bar>ln q\<bar> \<le> 1075"
proof -
  have q: "1 / 2 ^ 1075 < q" "q < 2 ^ 1024"
    using assms by (simp_all add: in_range_def underflow_bound_def overflow_bound_def)
  have l2: "ln (2::real) \<le> 1" using ln_le_minus_one [of "2::real"] by simp
  have "ln q < ln (2 ^ 1024)" using assms(1) q(2) by (subst ln_less_cancel_iff) simp_all
  also have "\<dots> = real (1024::nat) * ln 2" by (rule ln_realpow)
  finally have up: "ln q < 1075" using l2 by simp
  have "ln (1 / 2 ^ 1075) < ln q" using assms(1) q(1) by (subst ln_less_cancel_iff) simp_all
  moreover have "ln (1 / 2 ^ 1075) = - ln ((2::real) ^ 1075)"
    by (subst ln_div) simp_all
  moreover have "ln ((2::real) ^ 1075) = real (1075::nat) * ln 2" by (rule ln_realpow)
  ultimately have "- 1075 < ln q" using l2 by simp
  with up show ?thesis by linarith
qed

lemma exp_sched_first:
  assumes a: "in_range a" and pos: "0 < b / a" and q: "in_range (b / a)" and k: "k \<noteq> 0"
  shows "exp_sched (Fin a) (Fin b) 0 k = Inr (Fin a)"
proof -
  have a0: "a \<noteq> 0" using a underflow_bound_pos by (auto simp: in_range_def)
  have 1: "py_truediv (Fin b) (Fin a) = Inr (Fin (b / a))"
    using a0 q by (simp add: py_truediv_def in_range_def round_range_exact)
  have 2: "fneg (flog (Fin (b / a))) = Fin (- ln (b / a))" using pos by simp
  have "\<bar>- ln (b / a) / real_of_int k\<bar> = \<bar>ln (b / a)\<bar> / \<bar>real_of_int k\<bar>" by simp
  also have "\<dots> \<le> \<bar>ln (b / a)\<bar> / 1"
    using k by (intro divide_left_mono) simp_all
  also have "\<dots> \<le> 1075" using ln_in_range_bound [OF pos q] by simp
  also have "\<dots> < overflow_bound" by (simp add: overflow_bound_def)
  finally have "\<exists>c. round_range (- ln (b / a) / real_of_int k) = Fin c"
    using round_range_finite by blast
  then obtain c where 3: "fdiv (fneg (flog (Fin (b / a)))) (Fin (real_of_int k)) = Fin c"
    unfolding 2 using k by auto
  have 4: "fmul (Fin a) (fexp (fmul (fneg (Fin c)) (Fin (real_of_int 0)))) = Fin a"
    using a by (simp add: in_range_def round_range_exact round_range_zero round_range_one)
  show ?thesis
    by (simp only: exp_sched_def 1 sum.case Let_def 3 4)
qed

text \<open>
  C2 (as amended). For a scheduler with a positive \<open>step_size\<close>: \<open>step(n)\<close> with \<open>n\<close> a
  multiple of \<open>step_size\<close> calls \<open>decay_fn(start_val, end_val, current_step, total_steps)\<close>,
  stores the value it returns as \<open>current_value\<close>, increments \<open>current_step\<close> and returns
  the value (and raises, with the state untouched, if \<open>decay_fn\<close> raises); with any other
  \<open>n\<close> it returns \<open>current_value\<close> and changes nothing. Under the default exponential
  decay the first call \<open>step(0)\<close> returns \<open>start_val\<close> if \<open>start_val\<close> is a finite
  double other than zero, the quotient \<open>end_val/start_val\<close> is positive and is rounded
  neither to zero nor to an infinity, and \<open>total_steps\<close> is not zero and is below \<open>2^53\<close>
  in absolute value, so that its conversion to a double is exact.
\<close>

theorem Scheduler_step_spec:
  assumes "0 < step_size s"
  shows "(n mod step_size s = 0 \<longrightarrow>
            step s n =
              (case decay_fn s (start_val s) (end_val s) (current_step s) (total_steps s) of
                 Inl e \<Rightarrow> (s, Inl e)
               | Inr v \<Rightarrow> (s\<lparr>current_value := v, current_step := current_step s + 1\<rparr>, Inr v))) \<and>
         (n mod step_size s \<noteq> 0 \<longrightarrow> step s n = (s, Inr (current_value s))) \<and>
         (0 < ss \<and> in_range a \<and> 0 < b / a \<and> in_range (b / a) \<and>
          (ns * ne) div ss \<noteq> 0 \<and> \<bar>(ns * ne) div ss\<bar> < 2 ^ 53 \<longrightarrow>
            (case Scheduler_init (Fin a) (Fin b) ss ns ne exp_sched of
               Inl e \<Rightarrow> False
             | Inr s0 \<Rightarrow>
                 step s0 0 = (s0\<lparr>current_value := Fin a, current_step := 1\<rparr>, Inr (Fin a))))"
proof (intro conjI impI)
  assume "n mod step_size s = 0"
  with assms show "step s n =
      (case decay_fn s (start_val s) (end_val s) (current_step s) (total_steps s) of
         Inl e \<Rightarrow> (s, Inl e)
       | Inr v \<Rightarrow> (s\<lparr>current_value := v, current_step := current_step s + 1\<rparr>, Inr v))"
    by (simp add: step_def)
next
  assume "n mod step_size s \<noteq> 0"
  with assms show "step s n = (s, Inr (current_value s))"
    by (simp add: step_def)
next
  assume h: "0 < ss \<and> in_range a \<and> 0 < b / a \<and> in_range (b / a) \<and>
             (ns * ne) div ss \<noteq> 0 \<and> \<bar>(ns * ne) div ss\<bar> < 2 ^ 53"
  then have "exp_sched (Fin a) (Fin b) 0 ((ns * ne) div ss) = Inr (Fin a)"
    by (simp add: exp_sched_first)
  with h show "case Scheduler_init (Fin a) (Fin b) ss ns ne exp_sched of
      Inl e \<Rightarrow> False
    | Inr s0 \<Rightarrow> step s0 0 = (s0\<lparr>current_value := Fin a, current_step := 1\<rparr>, Inr (Fin a))"
    by (simp add: Scheduler_init_def step_def)
qed

text \<open>
  The learning-rate scheduler that \<open>fit\<close> builds for 1000 samples and 20 epochs:
  \<open>step(0)\<close> returns 1.0 and advances, \<open>step(5)\<close> returns the stored value.
\<close>

theorem Scheduler_step_spec_witness:
  "step \<lparr>start_val = Fin 1, end_val = Fin (1 / 100), step_size = 100, n_samples = 1000,
          n_epochs = 20, decay_fn = exp_sched, current_step = 0, current_value = Fin 1,
          total_steps = 200\<rparr> 0 =
     (\<lparr>start_val = Fin 1, end_val = Fin (1 / 100), step_size = 100, n_samples = 1000,
       n_epochs = 20, decay_fn = exp_sched, current_step = 1, current_value = Fin 1,
       total_steps = 200\<rparr>, Inr (Fin 1)) \<and>
   step \<lparr>start_val = Fin 1, end_val = Fin (1 / 100), step_size = 100, n_samples = 1000,
          n_epochs = 20, decay_fn = exp_sched, current_step = 1, current_value = Fin 1,
          total_steps = 200\<rparr> 5 =
     (\<lparr>start_val = Fin 1, end_val = Fin (1 / 100), step_size = 100, n_samples = 1000,
       n_epochs = 20, decay_fn = exp_sched, current_step = 1, current_value = Fin 1,
       total_steps = 200\<rparr>, Inr (Fin 1)) \<and>
   snd (step (projr (Scheduler_init (Fin 1) (Fin (1 / 100)) 100 1000 20 exp_sched)) 0) =
     Inr (Fin 1)"
  using Scheduler_step_spec [of "\<lparr>start_val = Fin 1, end_val = Fin (1 / 100), step_size = 100,
          n_samples = 1000, n_epochs = 20, decay_fn = exp_sched, current_step = 0,
          current_value = Fin 1, total_steps = 200\<rparr>" 0 100 1 "1 / 100" 1000 20]
    Scheduler_step_spec [of "\<lparr>start_val = Fin 1, end_val = Fin (1 / 100), step_size = 100,
          n_samples = 1000, n_epochs = 20, decay_fn = exp_sched, current_step = 1,
          current_value = Fin 1, total_steps = 200\<rparr>" 5 100 1 "1 / 100" 1000 20]
  by (simp add: Scheduler_init_def in_range_def overflow_bound_def underflow_bound_def)

text \<open>
  C2 as stated fails: with 10 samples, one epoch and a step size of 100 the scheduler
  has \<open>total_steps = 0\<close>, the decay rate is \<open>4.6/0 = inf\<close>, and \<open>step(0)\<close> computes
  \<open>1.0 * exp(-inf * 0) = nan\<close>, not the start value; with a start value of 0 the
  first \<open>step(0)\<close> raises \<open>ZeroDivisionError\<close> instead of returning 0; and with the
  start value \<open>2^1000\<close> and the end value \<open>2^-1000\<close> the quotient underflows to 0, its
  logarithm is \<open>-inf\<close>, and \<open>step(0)\<close> returns \<open>nan\<close>.
\<close>

theorem Scheduler_first_step_nan:
  "Scheduler_init (Fin 1) (Fin (1 / 100)) 100 10 1 exp_sched =
     Inr \<lparr>start_val = Fin 1, end_val = Fin (1 / 100), step_size = 100, n_samples = 10,
          n_epochs = 1, decay_fn = exp_sched, current_step = 0, current_value = Fin 1,
          total_steps = 0\<rparr> \<and>
   snd (step \<lparr>start_val = Fin 1, end_val = Fin (1 / 100), step_size = 100, n_samples = 10,
          n_epochs = 1, decay_fn = exp_sched, current_step = 0, current_value = Fin 1,
          total_steps = 0\<rparr> 0) = Inr NaN \<and>
   Inr NaN \<noteq> (Inr (Fin 1) :: error + float64) \<and>
   snd (step \<lparr>start_val = Fin 0, end_val = Fin (1 / 100), step_size = 100, n_samples = 1000,
          n_epochs = 20, decay_fn = exp_sched, current_step = 0, current_value = Fin 0,
          total_steps = 200\<rparr> 0) = Inl ZeroDivisionError \<and>
   snd (step \<lparr>start_val = Fin (2 ^ 1000), end_val = Fin (1 / 2 ^ 1000), step_size = 100,
          n_samples = 1000, n_epochs = 20, decay_fn = exp_sched, current_step = 0,
          current_value = Fin (2 ^ 1000), total_steps = 200\<rparr> 0) = Inr NaN"
  by (simp add: Scheduler_init_def step_def exp_sched_def py_truediv_def scale_inf_def
        round_range_def overflow_bound_def underflow_bound_def)

text \<open>
  C7 (as amended). A zero \<open>step_size\<close> is rejected at construction with
  \<open>ZeroDivisionError\<close>. Nothing else is checked there: with any other \<open>step_size\<close> the
  scheduler is constructed whatever \<open>start_val\<close> and \<open>end_val\<close> are. Under the default
  exponential decay a zero \<open>start_val\<close> raises \<open>ZeroDivisionError\<close> in the first call
  \<open>step(0)\<close>, and a zero \<open>end_val\<close> never raises: \<open>step(0)\<close> returns \<open>nan\<close>.
\<close>

theorem Scheduler_init_rejects_only_zero_step_size:
  "(ss = 0 \<longrightarrow> Scheduler_init sv ev ss ns ne f = Inl ZeroDivisionError) \<and>
   (ss \<noteq> 0 \<longrightarrow>
      Scheduler_init sv ev ss ns ne f =
        Inr \<lparr>start_val = sv, end_val = ev, step_size = ss, n_samples = ns, n_epochs = ne,
             decay_fn = f, current_step = 0, current_value = sv,
             total_steps = (ns * ne) div ss\<rparr>) \<and>
   (ss \<noteq> 0 \<longrightarrow>
      snd (step (projr (Scheduler_init (Fin 0) ev ss ns ne exp_sched)) 0) =
        Inl ZeroDivisionError) \<and>
   (ss \<noteq> 0 \<and> a \<noteq> 0 \<longrightarrow>
      snd (step (projr (Scheduler_init (Fin a) (Fin 0) ss ns ne exp_sched)) 0) = Inr NaN)"
  by (simp add: Scheduler_init_def step_def exp_sched_def py_truediv_def scale_inf_def
        round_range_zero)

theorem Scheduler_init_rejects_only_zero_step_size_witness:
  "Scheduler_init (Fin 1) (Fin (1 / 100)) 0 1000 20 exp_sched = Inl ZeroDivisionError \<and>
   Scheduler_init (Fin 2) (Fin (1 / 100)) 100 1000 20 exp_sched =
     Inr \<lparr>start_val = Fin 2, end_val = Fin (1 / 100), step_size = 100, n_samples = 1000,
          n_epochs = 20, decay_fn = exp_sched, current_step = 0, current_value = Fin 2,
          total_steps = 200\<rparr> \<and>
   snd (step (projr (Scheduler_init (Fin 0) (Fin (1 / 100)) 100 1000 20 exp_sched)) 0) =
     Inl ZeroDivisionError \<and>
   snd (step (projr (Scheduler_init (Fin 2) (Fin 0) 100 1000 20 exp_sched)) 0) = Inr NaN"
  using Scheduler_init_rejects_only_zero_step_size
          [of 0 "Fin 1" "Fin (1 / 100)" 1000 20 exp_sched 2]
        Scheduler_init_rejects_only_zero_step_size
          [of 100 "Fin 2" "Fin (1 / 100)" 1000 20 exp_sched 2]
  by simp

text \<open>
  C7 as stated fails: schedulers with a zero start value and with a zero end value are
  constructed, and their \<open>step\<close> is called.
\<close>

theorem Scheduler_zero_values_constructed:
  "Scheduler_init (Fin 0) (Fin (1 / 100)) 100 1000 20 exp_sched =
     Inr \<lparr>start_val = Fin 0, end_val = Fin (1 / 100), step_size = 100, n_samples = 1000,
          n_epochs = 20, decay_fn = exp_sched, current_step = 0, current_value = Fin 0,
          total_steps = 200\<rparr> \<and>
   Scheduler_init (Fin 1) (Fin 0) 100 1000 20 exp_sched =
     Inr \<lparr>start_val = Fin 1, end_val = Fin 0, step_size = 100, n_samples = 1000,
          n_epochs = 20, decay_fn = exp_sched, current_step = 0, current_value = Fin 1,
          total_steps = 200\<rparr> \<and>
   step \<lparr>start_val = Fin 1, end_val = Fin 0, step_size = 100, n_samples = 1000,
          n_epochs = 20, decay_fn = exp_sched, current_step = 0, current_value = Fin 1,
          total_steps = 200\<rparr> 0 =
     (\<lparr>start_val = Fin 1, end_val = Fin 0, step_size = 100, n_samples = 1000,
       n_epochs = 20, decay_fn = exp_sched, current_step = 1, current_value = NaN,
       total_steps = 200\<rparr>, Inr NaN)"
  by (simp add: Scheduler_init_def step_def exp_sched_def py_truediv_def scale_inf_def
        round_range_zero)

section \<open>Properties of the map\<close>

text \<open>
  C3. If the distance function returns a grid of distances of the map's shape in which
  cell \<open>(r, c)\<close> is at minimal distance from \<open>x\<close> and every cell before it in
  row-major order is strictly farther, then \<open>find_bmu\<close> returns \<open>(r, c)\<close>: among several
  cells at the minimal distance the first one in row-major order wins.
\<close>

theorem find_bmu_first_minimal:
  assumes D: "dist_fn som x (weights som) = Inr D" and Ds: "has_shape2 D (grid_sz som)"
    and r: "r < fst (grid_sz som)" and c: "c < snd (grid_sz som)"
    and least: "\<forall>r'<fst (grid_sz som). \<forall>c'<snd (grid_sz som). fle (D ! r ! c) (D ! r' ! c')"
    and first: "\<forall>r'<fst (grid_sz som). \<forall>c'<snd (grid_sz som).
                  r' < r \<or> (r' = r \<and> c' < c) \<longrightarrow> \<not> fle (D ! r' ! c') (D ! r ! c)"
  shows "find_bmu som x = Inr (r, c)"
proof -
  obtain R C where gs: "grid_sz som = (R, C)" by (cases "grid_sz som")
  have Ds': "has_shape2 D (R, C)" using Ds gs by simp
  have rc: "r < R" "c < C" using r c gs by simp_all
  have len: "length (concat D) = R * C" using Ds' by (rule length_concat_shape)
  have Cpos: "0 < C" using rc by simp
  have cell: "concat D ! j = D ! (j div C) ! (j mod C) \<and> j div C < R \<and> j mod C < C"
    if "j < R * C" for j
  proof -
    have a: "j div C < R" using that by (simp add: less_mult_imp_div_less)
    have b: "j mod C < C" using Cpos by simp
    from concat_nth_shape [OF Ds' a b] a b show ?thesis by simp
  qed
  have first': "\<not> fle (D ! r' ! c') (D ! r ! c)"
    if "r' < R" "c' < C" "r' < r \<or> (r' = r \<and> c' < c)" for r' c'
    using first gs that by auto
  let ?t = "r * C + c"
  have "Suc r * C \<le> R * C" using rc(1) by (intro mult_le_mono1) simp
  then have t: "?t < length (concat D)" using rc len by simp
  have tv: "concat D ! ?t = D ! r ! c" using Ds' rc by (rule concat_nth_shape)
  have l: "\<forall>j<length (concat D). fle (concat D ! ?t) (concat D ! j)"
    using least cell gs tv len by auto
  have f: "\<forall>j<?t. \<not> fle (concat D ! j) (concat D ! ?t)"
  proof (intro allI impI)
    fix j assume j: "j < ?t"
    then have jl: "j < R * C" using t len by simp
    from cell [OF jl] have cj: "concat D ! j = D ! (j div C) ! (j mod C)"
      "j div C < R" "j mod C < C" by simp_all
    have "(j div C) * C + j mod C < r * C + c" using j by simp
    from row_major_index [OF rc(2) cj(3) this]
    have "j div C < r \<or> (j div C = r \<and> j mod C < c)" .
    from first' [OF cj(2) cj(3) this]
    have "\<not> fle (D ! (j div C) ! (j mod C)) (D ! r ! c)" .
    with cj(1) tv show "\<not> fle (concat D ! j) (concat D ! ?t)" by simp
  qed
  have "argmin (concat D) = Inr ?t" using t l f by (rule argmin_first_min)
  moreover have "unravel_index ?t (R, C) = Inr (r, c)"
    using t len rc by (simp add: unravel_index_def)
  ultimately show ?thesis using D gs by (simp add: find_bmu_def)
qed

theorem find_bmu_first_minimal_witness:
  "find_bmu example_som [Fin 0] = Inr (0, 1)"
proof -
  let ?D = "[[Fin 1, Fin 0], [Fin 0, Fin 1]]"
  have D: "dist_fn example_som [Fin 0] (weights example_som) = Inr ?D"
    by (simp add: example_som_def eval_defs)
  have Ds: "has_shape2 ?D (grid_sz example_som)"
    by (simp add: example_som_def has_shape2_def)
  have r: "0 < fst (grid_sz example_som)" and c: "1 < snd (grid_sz example_som)"
    by (simp_all add: example_som_def)
  have least: "\<forall>r'<fst (grid_sz example_som). \<forall>c'<snd (grid_sz example_som).
      fle (?D ! 0 ! 1) (?D ! r' ! c')"
    by (simp add: example_som_def less_2_cases_iff)
  have first: "\<forall>r'<fst (grid_sz example_som). \<forall>c'<snd (grid_sz example_som).
      r' < 0 \<or> (r' = 0 \<and> c' < 1) \<longrightarrow> \<not> fle (?D ! r' ! c') (?D ! 0 ! 1)"
    by (simp add: example_som_def less_2_cases_iff)
  show ?thesis using find_bmu_first_minimal [OF D Ds r c least first] .
qed

text \<open>
  C1 (as amended). For a map whose weights have the shape of its grid, with at least one
  cell, an input vector \<open>x\<close> of the weights' dimension to which the distance function
  assigns a grid of distances, every learning rate and every radius \<open>sigma\<close> whose square
  does not overflow: the update finds the unit \<open>(br, bc)\<close> and sets every component of
  every reference vector \<open>w[r,c]\<close> to \<open>w[r,c] + lr * H[r,c] * (x - w[r,c])\<close> with
  \<open>H[r,c] = exp(-((br-r)^2 + (bc-c)^2) / (2*sigma^2))\<close>. If moreover \<open>sigma\<close> is not
  \<open>nan\<close> and its square is not rounded to zero, \<open>H\<close> is 1 at the unit and lies in
  \<open>[0, 1]\<close> everywhere.
\<close>

theorem update_weights_rule:
  assumes w: "weights som = Some w" and sh: "has_shape w (R, C, length x)"
    and gs: "grid_sz som = (R, C)" and R: "0 < R" and C: "0 < C"
    and D: "dist_fn som x (Some w) = Inr D" and Ds: "has_shape2 D (R, C)"
    and so: "\<not> square_overflows sigma"
  shows "\<exists>bmu w'. find_bmu som x = Inr bmu \<and> fst bmu < R \<and> snd bmu < C \<and>
           update_weights som x lr sigma = (som\<lparr>weights := Some w'\<rparr>, Inr ()) \<and>
           has_shape w' (R, C, length x) \<and>
           (\<forall>r<R. \<forall>c<C. \<forall>k<length x.
              w' ! r ! c ! k =
                fadd (w ! r ! c ! k)
                  (fmul (fmul lr (neighborhood_weight bmu r c sigma))
                     (fsub (x ! k) (w ! r ! c ! k)))) \<and>
           (sigma \<noteq> NaN \<and> \<not> square_vanishes sigma \<longrightarrow>
              neighborhood_weight bmu (fst bmu) (snd bmu) sigma = Fin 1 \<and>
              (\<forall>r c. fle (Fin 0) (neighborhood_weight bmu r c sigma) \<and>
                     fle (neighborhood_weight bmu r c sigma) (Fin 1)))"
proof -
  from update_weights_total [OF w sh gs R C D Ds, of lr sigma]
  obtain bmu w' where h: "find_bmu som x = Inr bmu" "fst bmu < R" "snd bmu < C"
    "update_weights som x lr sigma = (som\<lparr>weights := Some w'\<rparr>, Inr ())"
    "has_shape w' (R, C, length x)"
    "\<forall>r<R. \<forall>c<C. \<forall>k<length x.
              w' ! r ! c ! k =
                fadd (w ! r ! c ! k)
                  (fmul (fmul lr (neighborhood_weight bmu r c sigma))
                     (fsub (x ! k) (w ! r ! c ! k)))"
    by blast
  have "sigma \<noteq> NaN \<and> \<not> square_vanishes sigma \<longrightarrow>
          neighborhood_weight bmu (fst bmu) (snd bmu) sigma = Fin 1 \<and>
          (\<forall>r c. fle (Fin 0) (neighborhood_weight bmu r c sigma) \<and>
                 fle (neighborhood_weight bmu r c sigma) (Fin 1))"
    using neighborhood_weight_bmu neighborhood_weight_range by blast
  with h show ?thesis by blast
qed

theorem update_weights_rule_witness:
  "\<exists>bmu w'. find_bmu example_som [Fin 0] = Inr bmu \<and> fst bmu < 2 \<and> snd bmu < 2 \<and>
     update_weights example_som [Fin 0] (Fin (1 / 2)) (Fin 1) =
       (example_som\<lparr>weights := Some w'\<rparr>, Inr ()) \<and>
     has_shape w' (2, 2, length [Fin 0]) \<and>
     (\<forall>r<2. \<forall>c<2. \<forall>k<length [Fin 0].
        w' ! r ! c ! k =
          fadd ([[[Fin 1], [Fin 0]], [[Fin 0], [Fin 1]]] ! r ! c ! k)
            (fmul (fmul (Fin (1 / 2)) (neighborhood_weight bmu r c (Fin 1)))
               (fsub ([Fin 0] ! k) ([[[Fin 1], [Fin 0]], [[Fin 0], [Fin 1]]] ! r ! c ! k)))) \<and>
     neighborhood_weight bmu (fst bmu) (snd bmu) (Fin 1) = Fin 1 \<and>
     (\<forall>r c. fle (Fin 0) (neighborhood_weight bmu r c (Fin 1)) \<and>
            fle (neighborhood_weight bmu r c (Fin 1)) (Fin 1))"
proof -
  let ?w = "[[[Fin 1], [Fin 0]], [[Fin 0], [Fin 1]]]"
  have 1: "weights example_som = Some ?w" by (simp add: example_som_def)
  have 2: "has_shape ?w (2, 2, length [Fin 0])" by (simp add: has_shape_def)
  have 3: "grid_sz example_som = (2, 2)" by (simp add: example_som_def)
  have 4: "dist_fn example_som [Fin 0] (Some ?w) = Inr [[Fin 1, Fin 0], [Fin 0, Fin 1]]"
    by (simp add: example_som_def eval_defs)
  have 5: "has_shape2 [[Fin 1, Fin 0], [Fin 0, Fin 1]] (2, 2)" by (simp add: has_shape2_def)
  have 6: "\<not> square_overflows (Fin 1)"
    by (simp add: square_overflows_def overflow_bound_def)
  have 7: "\<not> square_vanishes (Fin 1)"
    by (simp add: square_vanishes_def underflow_bound_def)
  show ?thesis
    using update_weights_rule [OF 1 2 3 _ _ 4 5 6, of "Fin (1 / 2)"] 7 by simp
qed

text \<open>
  The same update computed in full: the unit is \<open>(0, 1)\<close>, at distance 0 from the input,
  so its own vector and the equal one in the next row stay, and the two vectors of value
  1, at grid distance 1 from the unit, move by \<open>0.5 * exp(-1/2)\<close> towards 0.
\<close>

lemma update_weights_example:
  "update_weights example_som [Fin 0] (Fin (1 / 2)) (Fin 1) =
     (example_som\<lparr>weights :=
        Some [[[Fin (1 - exp (- (1 / 2)) / 2)], [Fin 0]],
              [[Fin 0], [Fin (1 - exp (- (1 / 2)) / 2)]]]\<rparr>, Inr ())"
proof -
  have lo: "1 / 2 \<le> exp (- (1 / 2) :: real)"
    using exp_ge_add_one_self [of "- (1 / 2) :: real"] by simp
  have hi: "exp (- (1 / 2) :: real) \<le> 1" by simp
  have a: "\<bar>exp (- (1 / 2) :: real) / 2\<bar> = exp (- (1 / 2)) / 2"
    "\<bar>1 - exp (- (1 / 2) :: real) / 2\<bar> = 1 - exp (- (1 / 2)) / 2"
    by (rule abs_of_nonneg, use lo hi in linarith)+
  have k1: "round_range (exp (- (1 / 2))) = Fin (exp (- (1 / 2)))"
    and k2: "round_range (exp (- 1)) = Fin (exp (- 1))"
    by (rule round_range_exp; simp)+
  have p: "(1::real) / 2 ^ 64 \<le> 1 / 4" "(4::real) \<le> 2 ^ 64" by simp_all
  have m1: "round_range (exp (- (1 / 2)) / 2) = Fin (exp (- (1 / 2)) / 2)"
    by (rule round_range_moderate; unfold a) (use lo hi p in linarith)+
  have m2: "round_range (1 - exp (- (1 / 2)) / 2) = Fin (1 - exp (- (1 / 2)) / 2)"
    by (rule round_range_moderate; unfold a) (use lo hi p in linarith)+
  have m3: "round_range (- 1) = Fin (- 1)" "round_range 2 = Fin 2"
    "round_range (1 / 2) = Fin (1 / 2)" "round_range (- (1 / 2)) = Fin (- (1 / 2))"
    by (rule round_range_moderate; simp)+
  have m5: "round_range (- (exp (- (1 / 2)) / 2)) = Fin (- (exp (- (1 / 2)) / 2))"
    by (rule round_range_moderate; unfold abs_minus_cancel a) (use lo hi p in linarith)+
  have "\<bar>exp (- 1 :: real) / 2\<bar> = exp (- 1) / 2" by simp
  moreover have "exp (- 1 :: real) \<le> 1" by simp
  ultimately have "\<bar>exp (- 1 :: real) / 2\<bar> < overflow_bound"
    using one_less_overflow_bound by linarith
  from round_range_finite [OF this]
  have m4: "fmul (round_range (exp (- 1) / 2)) (Fin 0) = Fin 0" by (auto simp: round_range_zero)
  show ?thesis
    by (simp add: example_som_def find_bmu_def dist_fn_default_def bc3_def bzip_def norm_last_def
        fsum_def fsub_def unravel_index_def fge_def update_weights_def grid_distances_def
        neighborhood_function_def iadd_def scale_inf_def Let_def numeral_2_eq_2
        round_range_zero round_range_one k1 k2 m1 m2 m3 m4 m5)
qed

text \<open>
  C1 as stated fails for \<open>sigma = 0\<close>: at the unit the kernel is \<open>exp(-0/0) = nan\<close>,
  which is neither 1 nor in \<open>[0, 1]\<close>. It fails in the same way for a radius such as
  \<open>2^-600\<close>, whose square underflows to 0.
\<close>

theorem update_weights_zero_sigma_nan:
  "find_bmu example_som [Fin 0] = Inr (0, 1) \<and>
   neighborhood_weight (0, 1) 0 1 (Fin 0) = NaN \<and>
   neighborhood_function example_som (grid_distances example_som (0, 1)) (Fin 0) =
     [[Fin 0, NaN], [Fin 0, Fin 0]] \<and>
   neighborhood_weight (0, 1) 0 1 (Fin (1 / 2 ^ 600)) = NaN \<and>
   NaN \<noteq> Fin 1 \<and> \<not> fle (Fin 0) NaN \<and> \<not> fle NaN (Fin 1)"
  by (simp add: example_som_def eval_defs neighborhood_weight_def)

text \<open>
  C8 (as amended). A zero radius is not rejected. The neighbourhood function returns
  \<open>nan\<close> where the grid distance is zero and 0 where it is positive, and the update of
  a map as in C1 raises nothing: it completes and overwrites every component of the
  unit's reference vector with \<open>nan\<close>.
\<close>

theorem zero_sigma_not_rejected:
  assumes "weights som = Some w" and "has_shape w (R, C, length x)"
    and "grid_sz som = (R, C)" and "0 < R" and "0 < C"
    and "dist_fn som x (Some w) = Inr D" and "has_shape2 D (R, C)"
  shows "neighborhood_function som gd (Fin 0) =
           map (map (\<lambda>d. if d = 0 then NaN else if 0 < d then Fin 0 else PInf)) gd \<and>
         (\<exists>bmu w'. find_bmu som x = Inr bmu \<and>
            update_weights som x lr (Fin 0) = (som\<lparr>weights := Some w'\<rparr>, Inr ()) \<and>
            (\<forall>k<length x. w' ! fst bmu ! snd bmu ! k = NaN))"
proof
  show "neighborhood_function som gd (Fin 0) =
           map (map (\<lambda>d. if d = 0 then NaN else if 0 < d then Fin 0 else PInf)) gd"
    by (simp add: neighborhood_function_def scale_inf_def round_range_zero)
next
  from update_weights_total [OF assms, of lr "Fin 0"]
  obtain bmu w' where h: "find_bmu som x = Inr bmu" "fst bmu < R" "snd bmu < C"
    "update_weights som x lr (Fin 0) = (som\<lparr>weights := Some w'\<rparr>, Inr ())"
    "\<forall>r<R. \<forall>c<C. \<forall>k<length x.
              w' ! r ! c ! k =
                fadd (w ! r ! c ! k)
                  (fmul (fmul lr (neighborhood_weight bmu r c (Fin 0)))
                     (fsub (x ! k) (w ! r ! c ! k)))"
    by blast
  have "w' ! fst bmu ! snd bmu ! k = NaN" if "k < length x" for k
    using h(2,3,5) that by (simp add: neighborhood_weight_zero_sigma fmul_NaN_right fadd_NaN_right)
  with h show "\<exists>bmu w'. find_bmu som x = Inr bmu \<and>
            update_weights som x lr (Fin 0) = (som\<lparr>weights := Some w'\<rparr>, Inr ()) \<and>
            (\<forall>k<length x. w' ! fst bmu ! snd bmu ! k = NaN)"
    by blast
qed

theorem zero_sigma_not_rejected_witness:
  "neighborhood_function example_som [[1, 0], [2, 1]] (Fin 0) =
     map (map (\<lambda>d. if d = 0 then NaN else if 0 < d then Fin 0 else PInf))
       [[1, 0], [2, 1 :: int]] \<and>
   (\<exists>bmu w'. find_bmu example_som [Fin 0] = Inr bmu \<and>
      update_weights example_som [Fin 0] (Fin (1 / 2)) (Fin 0) =
        (example_som\<lparr>weights := Some w'\<rparr>, Inr ()) \<and>
      (\<forall>k<length [Fin 0]. w' ! fst bmu ! snd bmu ! k = NaN))"
proof -
  let ?w = "[[[Fin 1], [Fin 0]], [[Fin 0], [Fin 1]]]"
  have 1: "weights example_som = Some ?w" by (simp add: example_som_def)
  have 2: "has_shape ?w (2, 2, length [Fin 0])" by (simp add: has_shape_def)
  have 3: "grid_sz example_som = (2, 2)" by (simp add: example_som_def)
  have 4: "dist_fn example_som [Fin 0] (Some ?w) = Inr [[Fin 1, Fin 0], [Fin 0, Fin 1]]"
    by (simp add: example_som_def eval_defs)
  have 5: "has_shape2 [[Fin 1, Fin 0], [Fin 0, Fin 1]] (2, 2)" by (simp add: has_shape2_def)
  show ?thesis
    using zero_sigma_not_rejected [OF 1 2 3 _ _ 4 5, of "[[1, 0], [2, 1]]" "Fin (1 / 2)"]
    by simp
qed

text \<open>
  C8 as stated fails: with \<open>sigma = 0\<close> the kernel is evaluated and the update returns
  normally, leaving \<open>nan\<close> in the map.
\<close>

theorem zero_sigma_update_returns:
  "neighborhood_function example_som [[1, 0], [2, 1]] (Fin 0) = [[Fin 0, NaN], [Fin 0, Fin 0]] \<and>
   update_weights example_som [Fin 0] (Fin (1 / 2)) (Fin 0) =
     (example_som\<lparr>weights := Some [[[Fin 1], [NaN]], [[Fin 0], [Fin 1]]]\<rparr>, Inr ())"
  by (simp add: example_som_def eval_defs)

text \<open>
  C6 (as amended). For a map with grid size \<open>(1, 1)\<close>, the default distance and any
  non-empty data set of the weights' dimension: \<open>find_bmu\<close> returns \<open>(0, 0)\<close> for every
  sample and the quantization error is the mean distance of the samples to the single
  reference vector; \<open>topographic_error\<close> returns no value: \<open>np.argpartition\<close> with
  \<open>kth = 2\<close> is out of bounds for one distance and raises \<open>ValueError\<close>.
\<close>

theorem single_cell_map:
  assumes gs: "grid_sz som = (1, 1)" and w: "weights som = Some [[v]]"
    and df: "dist_fn som = dist_fn_default" and ne: "X \<noteq> []"
    and len: "\<forall>x\<in>set X. length x = length v" and ap: "argpartition_ok ext"
  shows "(\<forall>x\<in>set X. find_bmu som x = Inr (0, 0)) \<and>
         quantization_error som X =
           (som, Inr (mean (map (\<lambda>x. norm_last (map2 fsub v x)) X))) \<and>
         topographic_error ext som X = (som, Inl ValueError)"
proof -
  have d: "dist_fn som x (weights som) = Inr [[norm_last (map2 fsub v x)]]" if "x \<in> set X" for x
  proof -
    have "has_shape [[v]] (1, 1, length x)" using len that by (simp add: has_shape_def)
    from dist_fn_default_shape [OF this] show ?thesis using df w by simp
  qed
  have bmu: "\<forall>x\<in>set X. find_bmu som x = Inr (0, 0)"
    using d gs by (simp add: find_bmu_def unravel_index_def)
  have "sequence (map (\<lambda>x. case dist_fn som x (weights som) of
                                  Inl e \<Rightarrow> Inl e
                                | Inr distances \<Rightarrow> amin (concat distances)) X) =
          Inr (map (\<lambda>x. norm_last (map2 fsub v x)) X)"
    by (rule sequence_map_Inr) (simp add: d)
  then have qe: "quantization_error som X =
           (som, Inr (mean (map (\<lambda>x. norm_last (map2 fsub v x)) X)))"
    by (simp add: quantization_error_def)
  have "argpartition ext [norm_last (map2 fsub v x)] 2 = Inl ValueError" for x
    using ap by (simp add: argpartition_ok_def)
  then have "check_bmu_adjacency ext som x = Inl ValueError" if "x \<in> set X" for x
    using d [OF that] by (simp add: check_bmu_adjacency_def)
  with ne have "sequence (map (check_bmu_adjacency ext som) X) = Inl ValueError"
    by (rule sequence_all_Inl)
  then have te: "topographic_error ext som X = (som, Inl ValueError)"
    by (simp add: topographic_error_def)
  from bmu qe te show ?thesis by blast
qed

theorem single_cell_map_witness:
  "find_bmu single_cell_som [Fin 1, Fin 0, Fin 0] = Inr (0, 0) \<and>
   find_bmu single_cell_som [Fin 0, Fin 0, Fin 0] = Inr (0, 0) \<and>
   quantization_error single_cell_som [[Fin 1, Fin 0, Fin 0], [Fin 0, Fin 0, Fin 0]] =
     (single_cell_som,
      Inr (mean (map (\<lambda>x. norm_last (map2 fsub [Fin 0, Fin 0, Fin 0] x))
                  [[Fin 1, Fin 0, Fin 0], [Fin 0, Fin 0, Fin 0]]))) \<and>
   topographic_error sample_ext single_cell_som [[Fin 1, Fin 0, Fin 0], [Fin 0, Fin 0, Fin 0]] =
     (single_cell_som, Inl ValueError)"
proof -
  have 1: "grid_sz single_cell_som = (1, 1)" by (simp add: single_cell_som_def)
  have 2: "weights single_cell_som = Some [[[Fin 0, Fin 0, Fin 0]]]"
    by (simp add: single_cell_som_def)
  have 3: "dist_fn single_cell_som = dist_fn_default" by (simp add: single_cell_som_def)
  have 4: "[[Fin 1, Fin 0, Fin 0], [Fin 0, Fin 0, Fin 0]] \<noteq> ([] :: matrix)" by simp
  have 5: "\<forall>x\<in>set [[Fin 1, Fin 0, Fin 0], [Fin 0, Fin 0, Fin 0]].
             length x = length [Fin 0, Fin 0, Fin 0]" by simp
  show ?thesis using single_cell_map [OF 1 2 3 4 5 sample_argpartition_ok] by simp
qed

text \<open>
  C6 as stated fails in its last part: on the single-cell map the topographic error of a
  sample is not 0 but a \<open>ValueError\<close>, while the unit and the quantization error are as
  claimed.
\<close>

theorem single_cell_topographic_error_raises:
  "topographic_error sample_ext single_cell_som [[Fin 1, Fin 0, Fin 0]] =
     (single_cell_som, Inl ValueError) \<and>
   find_bmu single_cell_som [Fin 1, Fin 0, Fin 0] = Inr (0, 0) \<and>
   quantization_error single_cell_som [[Fin 1, Fin 0, Fin 0]] = (single_cell_som, Inr (Fin 1))"
  by (simp add: single_cell_som_def sample_ext_def sample_argpartition_def topographic_error_def
        check_bmu_adjacency_def quantization_error_def mean_def eval_defs)

text \<open>
  The topographic error on a grid of at least three cells. For a non-empty data set on
  which the distance function returns grids of the map's shape (a map that holds weights
  of its grid's shape, samples of the weights' dimension), \<open>topographic_error\<close> returns
  \<open>100 * k / n\<close>, where \<open>n\<close> is the number of samples and \<open>k\<close> counts the samples for
  which the two closest cells \<open>(r1, c1)\<close>, \<open>(r2, c2)\<close> that \<open>np.argpartition\<close> selected
  have \<open>|r1 - r2| > 1\<close> or \<open>|c1 - c2| > 1\<close>; the result lies in \<open>[0, 100]\<close>.
\<close>

lemma topographic_error_percentage:
  assumes ap: "argpartition_ok ext" and gs: "grid_sz som = (R, C)" and n3: "3 \<le> R * C"
    and ne: "X \<noteq> []"
    and D: "\<forall>x\<in>set X. \<exists>D. dist_fn som x (weights som) = Inr D \<and> has_shape2 D (R, C)"
  shows "\<exists>ps. length ps = length X \<and>
           (\<forall>m<length X. \<exists>D. dist_fn som (X ! m) (weights som) = Inr D \<and>
                two_closest (concat D) (fst (ps ! m)) (snd (ps ! m))) \<and>
           topographic_error ext som X =
             (som, Inr (Fin (real (100 * length (filter
                  (\<lambda>p. non_adjacent (cell_of C (fst p)) (cell_of C (snd p))) ps)) /
                real (length X)))) \<and>
           0 \<le> real (100 * length (filter
                  (\<lambda>p. non_adjacent (cell_of C (fst p)) (cell_of C (snd p))) ps)) /
                real (length X) \<and>
           real (100 * length (filter
                  (\<lambda>p. non_adjacent (cell_of C (fst p)) (cell_of C (snd p))) ps)) /
                real (length X) \<le> 100"
proof -
  let ?P = "\<lambda>x i1 i2. \<exists>D. dist_fn som x (weights som) = Inr D \<and> two_closest (concat D) i1 i2"
  let ?Q = "\<lambda>i1 i2. non_adjacent (cell_of C i1) (cell_of C i2)"
  have "\<forall>x\<in>set X. \<exists>i1 i2. ?P x i1 i2 \<and> check_bmu_adjacency ext som x = Inr (?Q i1 i2)"
  proof
    fix x assume "x \<in> set X"
    with D obtain Dx where Dx: "dist_fn som x (weights som) = Inr Dx" "has_shape2 Dx (R, C)"
      by blast
    from adjacency_two_closest [OF ap Dx gs n3] Dx(1)
    show "\<exists>i1 i2. ?P x i1 i2 \<and> check_bmu_adjacency ext som x = Inr (?Q i1 i2)" by blast
  qed
  from flags_exist [where P = ?P and Q = ?Q, OF this]
  obtain ps where ps: "length ps = length X"
      "\<forall>m<length X. ?P (X ! m) (fst (ps ! m)) (snd (ps ! m))"
      "sequence (map (check_bmu_adjacency ext som) X) = Inr (map (\<lambda>p. ?Q (fst p) (snd p)) ps)"
    by blast
  let ?k = "length (filter (\<lambda>p. ?Q (fst p) (snd p)) ps)"
  have cnt: "length (filter (\<lambda>b. b) (map (\<lambda>p. ?Q (fst p) (snd p)) ps)) = ?k"
    by (simp add: filter_map comp_def)
  have te: "topographic_error ext som X = (som, Inr (Fin (real (100 * ?k) / real (length X))))"
    using ps(3) cnt ne by (simp add: topographic_error_def)
  have "?k \<le> length X" using ps(1) by (metis length_filter_le)
  moreover have "0 < length X" using ne by simp
  ultimately have hi: "real (100 * ?k) / real (length X) \<le> 100"
    by (simp add: divide_le_eq)
  have lo: "0 \<le> real (100 * ?k) / real (length X)" by simp
  from ps(1,2) te lo hi show ?thesis by blast
qed

lemma topographic_error_percentage_row:
  "\<exists>ps. length ps = length [[Fin 0]] \<and>
     (\<forall>m<length [[Fin 0]]. \<exists>D. dist_fn row_som ([[Fin 0]] ! m) (weights row_som) = Inr D \<and>
          two_closest (concat D) (fst (ps ! m)) (snd (ps ! m))) \<and>
     topographic_error sample_ext row_som [[Fin 0]] =
       (row_som, Inr (Fin (real (100 * length (filter
            (\<lambda>p. non_adjacent (cell_of 3 (fst p)) (cell_of 3 (snd p))) ps)) /
          real (length [[Fin 0]])))) \<and>
     0 \<le> real (100 * length (filter
            (\<lambda>p. non_adjacent (cell_of 3 (fst p)) (cell_of 3 (snd p))) ps)) /
          real (length [[Fin 0]]) \<and>
     real (100 * length (filter
            (\<lambda>p. non_adjacent (cell_of 3 (fst p)) (cell_of 3 (snd p))) ps)) /
          real (length [[Fin 0]]) \<le> 100"
proof -
  have 1: "grid_sz row_som = (1, 3)" by (simp add: row_som_def)
  have 2: "(3::nat) \<le> 1 * 3" by simp
  have 3: "[[Fin 0]] \<noteq> ([] :: matrix)" by simp
  have 4: "\<forall>x\<in>set [[Fin 0]]. \<exists>D. dist_fn row_som x (weights row_som) = Inr D \<and>
             has_shape2 D (1, 3)"
    by (simp add: row_som_def has_shape2_def eval_defs)
  show ?thesis
    using topographic_error_percentage [OF sample_argpartition_ok 1 2 3 4] .
qed

text \<open>On the row of three cells the two closest cells of \<open>[0]\<close> are the outer ones.\<close>

lemma topographic_error_row_example:
  "topographic_error sample_ext row_som [[Fin 0]] = (row_som, Inr (Fin 100))"
  by (simp add: row_som_def sample_ext_def sample_argpartition_def topographic_error_def
        check_bmu_adjacency_def unpack_differs_def eval_defs)

text \<open>
  On a grid of fewer than three cells the partition with \<open>kth = 2\<close> is out of bounds
  whatever the data: the topographic error of a non-empty data set raises \<open>ValueError\<close>
  at its first sample.
\<close>

lemma topographic_error_small_grid:
  assumes ap: "argpartition_ok ext" and gs: "grid_sz som = (R, C)" and small: "R * C < 3"
    and D: "dist_fn som x (weights som) = Inr D" and Ds: "has_shape2 D (R, C)"
  shows "topographic_error ext som (x # xs) = (som, Inl ValueError)"
proof -
  have "length (concat D) \<le> 2" using length_concat_shape [OF Ds] small by simp
  then have "argpartition ext (concat D) 2 = Inl ValueError"
    using ap by (simp add: argpartition_ok_def)
  then have "check_bmu_adjacency ext som x = Inl ValueError"
    using D by (simp add: check_bmu_adjacency_def)
  then show ?thesis by (simp add: topographic_error_def)
qed

text \<open>
  C4 fails on the code. On the row of two cells with the weights \<open>[0]\<close> and \<open>[1]\<close> the
  sample \<open>[0]\<close> has the distances 0 and 1: the best matching unit is \<open>(0, 0)\<close>, the
  second closest cell is \<open>(0, 1)\<close>, they are adjacent, and the claim gives
  \<open>100 * 0 / 1 = 0\<close>. The program's comment says that it gets the indices of the two
  best matching units, but \<open>np.argpartition\<close> is called with \<open>kth = 2\<close>, which asks
  for a third distance where \<open>kth = 1\<close> places the two smallest, and
  \<open>topographic_error\<close> raises \<open>ValueError\<close>.
\<close>

theorem topographic_error_two_cells_raises:
  "dist_fn pair_som [Fin 0] (weights pair_som) = Inr [[Fin 0, Fin 1]] \<and>
   find_bmu pair_som [Fin 0] = Inr (0, 0) \<and>
   cell_of (snd (grid_sz pair_som)) 0 = (0, 0) \<and>
   cell_of (snd (grid_sz pair_som)) 1 = (0, 1) \<and>
   \<not> non_adjacent (0, 0) (0, 1) \<and>
   argpartition sample_ext [Fin 0, Fin 1] 1 = Inr [0, 1] \<and>
   argpartition sample_ext [Fin 0, Fin 1] 2 = Inl ValueError \<and>
   topographic_error sample_ext pair_som [[Fin 0]] = (pair_som, Inl ValueError)"
  by (simp add: pair_som_def sample_ext_def sample_argpartition_def topographic_error_def
        check_bmu_adjacency_def cell_of_def non_adjacent_def upt_conv_Cons eval_defs)


text \<open>
  The shape of the weight grid. Random initialisation gives the shape
  \<open>(rows, cols, input_dim)\<close>. A PCA initialisation that succeeds gives
  \<open>(rows, rows, n_features)\<close>, with the number of columns of the data as the last
  dimension. No operation changes the shape of a grid the map holds: not the update,
  whether it succeeds or raises, not \<open>fit\<close>, and the metrics and \<open>transform\<close> leave the
  whole map as it was.
\<close>

lemma weight_grid_shape:
  "(randn_ok ext \<longrightarrow>
      (\<exists>w. initialize_weights ext som Xo ''random'' = Inr (Some w) \<and>
            has_shape w (fst (grid_sz som), snd (grid_sz som), input_dim som))) \<and>
   (pca_ok ext \<and> pca_fit ext X = Inr p \<longrightarrow>
      (\<exists>w. initialize_weights ext som (Some X) ''pca'' = Inr (Some w) \<and>
            has_shape w (fst (grid_sz som), fst (grid_sz som), length (hd X)))) \<and>
   (weights_shape som s \<longrightarrow>
      weights_shape (fst (update_weights som x lr sigma)) s \<and>
      weights_shape (fst (fit ext som X n lrs sgs sh)) s \<and>
      fst (quantization_error som X) = som \<and>
      fst (topographic_error ext som X) = som \<and>
      fst (transform som X) = som \<and>
      fst (predict som X) = som)"
proof (intro conjI impI)
  assume "randn_ok ext"
  then show "\<exists>w. initialize_weights ext som Xo ''random'' = Inr (Some w) \<and>
            has_shape w (fst (grid_sz som), snd (grid_sz som), input_dim som)"
    by (simp add: initialize_weights_def randn_ok_def)
next
  assume "pca_ok ext \<and> pca_fit ext X = Inr p"
  then have "\<exists>w. initialize_weights_pca ext som X = Inr w \<and>
              has_shape w (fst (grid_sz som), fst (grid_sz som), length (hd X))"
    using initialize_weights_pca_shape by blast
  then show "\<exists>w. initialize_weights ext som (Some X) ''pca'' = Inr (Some w) \<and>
            has_shape w (fst (grid_sz som), fst (grid_sz som), length (hd X))"
    by (auto simp: initialize_weights_def)
next
  assume "weights_shape som s"
  then show "weights_shape (fst (update_weights som x lr sigma)) s"
    by (rule update_weights_shape)
next
  assume "weights_shape som s"
  then show "weights_shape (fst (fit ext som X n lrs sgs sh)) s"
    by (rule fit_shape)
qed (simp_all add: quantization_error_def topographic_error_def transform_def predict_def)

text \<open>
  C5 fails on the code. For the grid size \<open>(2, 3)\<close> and the data
  \<open>[[1, 0], [-1, 0], [0, 0]]\<close> PCA initialisation returns a grid of shape \<open>(2, 2, 2)\<close>,
  not \<open>(2, 3, 2)\<close>: both mesh axes are sized by \<open>grid_sz[0]\<close>. Random initialisation
  gives the configured shape, and the rest of the program needs it: \<open>fit\<close> on this map
  stores the square grid and raises \<open>ValueError\<close> at the first update, where the
  neighbourhood of shape \<open>(2, 3, 1)\<close> does not broadcast against the weights.
\<close>

theorem pca_init_on_oblong_grid:
  "initialize_weights sample_ext oblong_som
     (Some [[Fin 1, Fin 0], [Fin (- 1), Fin 0], [Fin 0, Fin 0]]) ''pca'' =
     Inr (Some [[[Fin (- 1), Fin 0], [Fin 1, Fin 0]], [[Fin (- 1), Fin 0], [Fin 1, Fin 0]]]) \<and>
   has_shape [[[Fin (- 1), Fin 0], [Fin 1, Fin 0]], [[Fin (- 1), Fin 0], [Fin 1, Fin 0]]]
       (2, 2, 2) \<and>
   \<not> has_shape [[[Fin (- 1), Fin 0], [Fin 1, Fin 0]], [[Fin (- 1), Fin 0], [Fin 1, Fin 0]]]
       (2, 3, 2) \<and>
   has_shape (randn sample_ext 2 3 2) (2, 3, 2) \<and>
   initialize_weights sample_ext oblong_som None ''random'' =
     Inr (Some (randn sample_ext 2 3 2)) \<and>
   fit sample_ext oblong_som [[Fin 1, Fin 0], [Fin (- 1), Fin 0], [Fin 0, Fin 0]] 1 None None
       False =
     (oblong_som\<lparr>weights :=
        Some [[[Fin (- 1), Fin 0], [Fin 1, Fin 0]], [[Fin (- 1), Fin 0], [Fin 1, Fin 0]]]\<rparr>,
      Inl ValueError)"
  by (simp add: fit_def oblong_som_def SOM_init_def initialize_weights_def
        initialize_weights_pca_def sample_ext_def sample_pca_def sample_randn_def unit_vec_def
        linspace_def has_shape_def Scheduler_init_def step_def exp_sched_def py_truediv_def
        upt_conv_Cons eval_defs)

text \<open>
  C9. \<open>transform\<close> leaves the map as it was, so a second call on the same data sees
  the same map and returns the same outcome; the outcome is the list of the best
  matching units of the samples, or the first error among them. \<open>predict\<close> is the
  same function.
\<close>

theorem transform_is_pure:
  "fst (transform som X) = som \<and>
   transform (fst (transform som X)) X = transform som X \<and>
   snd (transform som X) = sequence (map (find_bmu som) X) \<and>
   predict som X = transform som X"
proof -
  have "transform_loop som (replicate (length X) (0, 0)) 0 X =
          (case sequence (map (find_bmu som) X) of Inl e \<Rightarrow> Inl e | Inr ps \<Rightarrow> Inr (take 0 (replicate (length X) (0, 0)) @ ps))"
    by (rule transform_loop_sequence) simp
  then have "snd (transform som X) = sequence (map (find_bmu som) X)"
    by (simp add: transform_def split: sum.splits)
  then show ?thesis by (simp add: transform_def predict_def)
qed

theorem transform_is_pure_witness:
  "fst (transform example_som [[Fin 0], [Fin 1]]) = example_som \<and>
   transform (fst (transform example_som [[Fin 0], [Fin 1]])) [[Fin 0], [Fin 1]] =
     transform example_som [[Fin 0], [Fin 1]] \<and>
   snd (transform example_som [[Fin 0], [Fin 1]]) = Inr [(0, 1), (0, 0)]"
  using transform_is_pure [of example_som "[[Fin 0], [Fin 1]]"]
  by (simp add: example_som_def eval_defs)

text \<open>
  C10. For a map without weights whose \<open>init\<close> is neither \<open>'random'\<close> nor \<open>'pca'\<close>,
  \<open>_initialize_weights\<close> raises nothing and returns \<open>None\<close>, and \<open>fit\<close> goes on with
  the absent grid: with no epochs it returns \<open>None\<close> as the weights, and with data, at
  least one epoch, the default distance and the default schedulers the failure comes
  only from the distance computation of the first update, as a \<open>TypeError\<close>.
\<close>

theorem unknown_init_method:
  assumes "init som \<noteq> ''random''" and "init som \<noteq> ''pca''" and "weights som = None"
  shows "initialize_weights ext som Xo (init som) = Inr None \<and>
         fit ext som X 0 lrs sgs sh = (som, Inr (None, [], [])) \<and>
         (X \<noteq> [] \<and> 0 < n \<and> dist_fn som = dist_fn_default \<and>
          0 < max (fst (grid_sz som)) (snd (grid_sz som)) \<and> permutation_ok ext \<longrightarrow>
            fit ext som X n None None sh = (som, Inl TypeError))"
proof (intro conjI impI)
  show i: "initialize_weights ext som Xo (init som) = Inr None"
    using assms by (simp add: initialize_weights_def)
  have s: "som\<lparr>weights := None\<rparr> = som" using assms(3) by (cases som) simp
  have i': "initialize_weights ext som (Some X) (init som) = Inr None"
    using assms by (simp add: initialize_weights_def)
  show "fit ext som X 0 lrs sgs sh = (som, Inr (None, [], []))"
    using assms(3) i' s
    by (cases lrs; cases sgs) (simp_all add: fit_def Scheduler_init_def)
  assume h: "X \<noteq> [] \<and> 0 < n \<and> dist_fn som = dist_fn_default \<and>
          0 < max (fst (grid_sz som)) (snd (grid_sz som)) \<and> permutation_ok ext"
  let ?X' = "if sh then permutation ext 0 X else X"
  have "mset ?X' = mset X" using h by (simp add: permutation_ok_def)
  then have "?X' \<noteq> []" using h by (metis mset_zero_iff)
  then obtain x xs where X': "?X' = x # xs" by (cases ?X') auto
  let ?lr = "\<lparr>start_val = Fin 1, end_val = Fin (1 / 100), step_size = 100,
              n_samples = int (length X), n_epochs = int n, decay_fn = exp_sched,
              current_step = 0, current_value = Fin 1,
              total_steps = (int (length X) * int n) div 100\<rparr>"
  let ?s0 = "Fin (real (max (fst (grid_sz som)) (snd (grid_sz som))) / 2)"
  let ?sg = "\<lparr>start_val = ?s0, end_val = Fin 1, step_size = 100,
              n_samples = int (length X), n_epochs = int n, decay_fn = exp_sched,
              current_step = 0, current_value = ?s0,
              total_steps = (int (length X) * int n) div 100\<rparr>"
  have "0 < max (fst (grid_sz som)) (snd (grid_sz som))" using h by blast
  then have s0: "?s0 \<noteq> Fin 0" by (simp add: max_def split: if_splits)
  obtain lr lr_s' where lr: "step ?lr 0 = (lr_s', Inr lr)"
    by (simp add: step_def exp_sched_def py_truediv_def)
  obtain sigma sigma_s' where sg: "step ?sg 0 = (sigma_s', Inr sigma)"
    using s0 by (simp add: step_def exp_sched_def py_truediv_def)
  have u: "update_weights som x lr sigma = (som, Inl TypeError)"
    using assms(3) h by (simp add: update_weights_def find_bmu_def dist_fn_default_def)
  have fs: "fit_samples (som, ?lr, ?sg) 0 (length X) 0 (x # xs) =
              ((som, lr_s', sigma_s'), Some TypeError)"
    using lr sg u by simp
  have up: "[0..<n] = 0 # [1..<n]" using h by (simp add: upt_conv_Cons)
  have "fit_epochs ext X sh (som, ?lr, ?sg) [0..<n] [] [] = ((som, lr_s', sigma_s'), Inl TypeError)"
    unfolding up using fs X' by (simp add: Let_def)
  then show "fit ext som X n None None sh = (som, Inl TypeError)"
    using assms(3) i' by (simp add: fit_def Scheduler_init_def s)
qed

theorem unknown_init_method_witness:
  "initialize_weights sample_ext unknown_init_som (Some [[Fin 0], [Fin 1]]) ''kmeans'' =
     Inr None \<and>
   fit sample_ext unknown_init_som [[Fin 0], [Fin 1]] 0 None None True =
     (unknown_init_som, Inr (None, [], [])) \<and>
   fit sample_ext unknown_init_som [[Fin 0], [Fin 1]] 3 None None True =
     (unknown_init_som, Inl TypeError)"
proof -
  have 1: "init unknown_init_som \<noteq> ''random''" "init unknown_init_som \<noteq> ''pca''"
    "weights unknown_init_som = None" "init unknown_init_som = ''kmeans''"
    "dist_fn unknown_init_som = dist_fn_default" "grid_sz unknown_init_som = (2, 2)"
    by (simp_all add: unknown_init_som_def SOM_init_def)
  show ?thesis
    using unknown_init_method [OF 1(1,2,3), of sample_ext "Some [[Fin 0], [Fin 1]]"
            "[[Fin 0], [Fin 1]]" None None True 3] 1(4,5,6) sample_permutation_ok
    by simp
qed

end
